theory Spec2Isabelle
  imports Complex_Main "HOL-Library.Multiset"
begin

section \<open>Hybrid search (BM25, semantic similarity, Reciprocal Rank Fusion)\<close>

text \<open>
  A shallow embedding of \<^verbatim>\<open>hybrid-search.ts\<close> (\<^verbatim>\<open>getKeywordRanks\<close>,
  \<^verbatim>\<open>getSemanticRanks\<close>, \<^verbatim>\<open>fuseRRF\<close>, \<^verbatim>\<open>hybridSearch\<close>, \<^verbatim>\<open>keywordSearch\<close>)
  and of \<^verbatim>\<open>semantic-search.ts\<close> (\<^verbatim>\<open>loadEmbeddings\<close>, \<^verbatim>\<open>searchPosts\<close>).

  Conventions of the model.
  \<^item> A JavaScript \<^verbatim>\<open>number\<close> holding a score is a \<^typ>\<open>real\<close>: arithmetic is exact, and
    \<^verbatim>\<open>NaN\<close> and the infinities are not values of a score. Document indices are
    \<^typ>\<open>int\<close>, ranks are \<^typ>\<open>nat\<close>.
  \<^item> A JavaScript string (a query, a title) is the list of its UTF-16 code units, as
    integers (from 0 to 65535). The keys of the maps, which the module builds from digits and a
    hyphen, are lists of \<^typ>\<open>char\<close>.
  \<^item> \<^verbatim>\<open>Array.prototype.sort\<close> is a stable sort; with the comparator
    \<^verbatim>\<open>(a, b) => b.s - a.s\<close> it sorts descending by \<^verbatim>\<open>s\<close>.
  \<^item> A \<^verbatim>\<open>Map\<close> is an association list in insertion order: \<^verbatim>\<open>set\<close> on a present
    key keeps the key's position, on a new key appends.
  \<^item> The library functions \<^verbatim>\<open>BM25\<close> (package okapibm25), \<^verbatim>\<open>cosineSimilarity\<close> and
    \<^verbatim>\<open>embed\<close> (package ai) are not part of the repository; they are fields of the
    environment, like the process environment variable and the embeddings file. The two
    functions of the package ai may throw.
\<close>

subsection \<open>Strings\<close>

type_synonym jsstring = "int list"

text \<open>A string literal of ASCII characters.\<close>

definition ascii :: "string \<Rightarrow> jsstring" where
  "ascii s = map of_char s"

text \<open>
  The code units that \<^verbatim>\<open>String.prototype.trim\<close> strips: the white space and line
  terminators of ECMAScript, that is TAB, LF, VT, FF, CR, SPACE, U+00A0, U+1680,
  U+2000 to U+200A, U+2028, U+2029, U+202F, U+205F, U+3000 and U+FEFF.
\<close>

definition is_space :: "int \<Rightarrow> bool" where
  "is_space c =
     (c \<in> {0x9, 0xA, 0xB, 0xC, 0xD, 0x20, 0xA0, 0x1680, 0x2028, 0x2029, 0x202F, 0x205F,
           0x3000, 0xFEFF}
      \<or> (0x2000 \<le> c \<and> c \<le> 0x200A))"

definition trim :: "jsstring \<Rightarrow> jsstring" where
  "trim s = rev (dropWhile is_space (rev (dropWhile is_space s)))"

text \<open>The guard \<^verbatim>\<open>!query || query.trim() === ''\<close>.\<close>

definition blank :: "jsstring \<Rightarrow> bool" where
  "blank query = (query = [] \<or> trim query = [])"

text \<open>
  \<^verbatim>\<open>String.prototype.toLowerCase\<close>, one code unit at a time. The lower-case form of a
  character contains a code unit of \<^verbatim>\<open>[a-z0-9]\<close> in these cases only: a digit or a small
  letter is its own lower-case form, \<^verbatim>\<open>A\<close> to \<^verbatim>\<open>Z\<close> become \<^verbatim>\<open>a\<close> to \<^verbatim>\<open>z\<close>, the Kelvin sign
  U+212A becomes \<^verbatim>\<open>k\<close>, and U+0130 becomes \<^verbatim>\<open>i\<close> followed by U+0307. Every other code unit is
  outside \<^verbatim>\<open>[a-z0-9]\<close> and so are the code units of its lower-case form; it is left as it
  is here, which gives the same pieces of \<^verbatim>\<open>[a-z0-9]\<close> in the split below.
\<close>

definition lower_units :: "int \<Rightarrow> jsstring" where
  "lower_units c =
     (if 0x41 \<le> c \<and> c \<le> 0x5A then [c + 0x20]
      else if c = 0x212A then [0x6B]
      else if c = 0x130 then [0x69, 0x307]
      else [c])"

definition toLowerCase :: "jsstring \<Rightarrow> jsstring" where
  "toLowerCase s = concat (map lower_units s)"

text \<open>The character class \<^verbatim>\<open>[a-z0-9]\<close>.\<close>

definition is_alnum :: "int \<Rightarrow> bool" where
  "is_alnum c = ((0x30 \<le> c \<and> c \<le> 0x39) \<or> (0x61 \<le> c \<and> c \<le> 0x7A))"

text \<open>
  \<^verbatim>\<open>s.split(/[^a-z0-9]+/)\<close>: the pieces between maximal runs of separator code units;
  the first argument is the piece being read.
\<close>

function split_runs :: "jsstring \<Rightarrow> jsstring \<Rightarrow> jsstring list" where
  "split_runs cur [] = [cur]"
| "split_runs cur (c # cs) =
     (if is_alnum c then split_runs (cur @ [c]) cs
      else cur # split_runs [] (dropWhile (\<lambda>d. \<not> is_alnum d) cs))"
  by pat_completeness auto
termination
  by (relation "measure (\<lambda>(cur, s). length s)")
     (auto simp: less_Suc_eq_le length_dropWhile_le)

definition tokenize :: "jsstring \<Rightarrow> jsstring list" where
  "tokenize text = filter (\<lambda>token. length token > 0) (split_runs [] (toLowerCase text))"

subsection \<open>Keys and numbers\<close>

definition is_digit :: "char \<Rightarrow> bool" where
  "is_digit c = (48 \<le> (of_char c :: nat) \<and> (of_char c :: nat) \<le> 57)"

text \<open>\<^verbatim>\<open>s.split('-')\<close>, for any separator character.\<close>

fun split_on :: "char \<Rightarrow> string \<Rightarrow> string \<Rightarrow> string list" where
  "split_on sep cur [] = [cur]"
| "split_on sep cur (c # cs) =
     (if c = sep then cur # split_on sep [] cs else split_on sep (cur @ [c]) cs)"

definition digit_char :: "nat \<Rightarrow> char" where
  "digit_char d = char_of (48 + d)"

fun digits :: "nat \<Rightarrow> string" where
  "digits n = (if n < 10 then [digit_char n] else digits (n div 10) @ [digit_char (n mod 10)])"

declare digits.simps [simp del]

text \<open>
  The string of an integer in a template literal: its decimal form (for the integers below
  \<open>10\<^sup>2\<^sup>1\<close> in absolute value; JavaScript prints larger numbers with an exponent).
\<close>

definition show_int :: "int \<Rightarrow> string" where
  "show_int i = (if i < 0 then CHR ''-'' # digits (nat (- i)) else digits (nat i))"

text \<open>
  What \<^verbatim>\<open>key.split('-').map(Number)\<close> and the destructuring give: a number,
  \<^verbatim>\<open>NaN\<close>, or \<^verbatim>\<open>undefined\<close> for a missing array element.
\<close>

datatype jsnum = Num int | NaN | Undefined

definition digits_value :: "string \<Rightarrow> nat" where
  "digits_value s = foldl (\<lambda>acc c. 10 * acc + (of_char c - 48)) 0 s"

text \<open>
  \<^verbatim>\<open>Number(s)\<close> on the pieces of a key: the empty string is 0, a string of decimal
  digits is its value. (The pieces of a key built from two integers are of these two
  forms only; the other numeric literals that \<^verbatim>\<open>Number\<close> accepts do not occur.)
\<close>

definition Number :: "string \<Rightarrow> jsnum" where
  "Number s = (if s = [] then Num 0
               else if list_all is_digit s then Num (int (digits_value s))
               else NaN)"

definition toString :: "jsnum \<Rightarrow> string" where
  "toString v = (case v of Num i \<Rightarrow> show_int i | NaN \<Rightarrow> ''NaN'' | Undefined \<Rightarrow> ''undefined'')"

subsection \<open>Data model\<close>

record DocKey =
  postIndex :: int
  mediaIndex :: int

record RankedResult = DocKey +
  rank :: nat

record KeywordSearchResult = RankedResult +
  score :: real

record Post = DocKey +
  title :: jsstring
  uri :: jsstring
  isVideo :: bool
  creationTimestamp :: int

record PostEmbedding = Post +
  embedding :: "real list"

record SearchResult = Post +
  similarity :: real

record FusedResult =
  fusedPostIndex :: jsnum
  fusedMediaIndex :: jsnum
  rrfScore :: real

text \<open>
  The exceptions. The source throws plain \<^verbatim>\<open>Error\<close> objects; the constructors stand for
  \<^verbatim>\<open>Failed to load embeddings: ...\<close> (\<open>LoadError\<close>),
  \<^verbatim>\<open>GOOGLE_GENERATIVE_AI_API_KEY environment variable is not set\<close> (\<open>ConfigurationError\<close>),
  whatever the rejected \<^verbatim>\<open>embed\<close> call throws (\<open>EmbeddingProviderError\<close>, with its message),
  whatever \<^verbatim>\<open>cosineSimilarity\<close> throws (\<open>SimilarityError\<close>, with its message) and
  \<^verbatim>\<open>Post not found: key\<close> (\<open>PostNotFound\<close>, with the key).
\<close>

datatype error =
    LoadError
  | ConfigurationError
  | EmbeddingProviderError string
  | SimilarityError string
  | PostNotFound string

text \<open>
  The world outside the module: the environment variable, the embedding provider (\<open>Inl\<close>
  with the message of the exception when the call fails), the two library functions and the
  content of \<^verbatim>\<open>public/embeddings.json\<close> (\<open>None\<close> when it cannot be read or parsed).
  \<^verbatim>\<open>cosineSimilarity\<close> gives \<open>Inl\<close> with the message when it throws, as the library does
  for two vectors of different lengths; the source checks no dimension before the call.
\<close>

record env =
  GOOGLE_GENERATIVE_AI_API_KEY :: "string option"
  embed :: "jsstring \<Rightarrow> string + real list"
  cosineSimilarity :: "real list \<Rightarrow> real list \<Rightarrow> string + real"
  BM25 :: "jsstring list \<Rightarrow> jsstring list \<Rightarrow> real \<Rightarrow> real \<Rightarrow> real list"
  store :: "PostEmbedding list option"

subsection \<open>Ordered maps and sorting\<close>

definition map_get :: "('k \<times> 'v) list \<Rightarrow> 'k \<Rightarrow> 'v option" where
  "map_get m key = map_of m key"

fun map_set :: "('k \<times> 'v) list \<Rightarrow> 'k \<Rightarrow> 'v \<Rightarrow> ('k \<times> 'v) list" where
  "map_set [] key v = [(key, v)]"
| "map_set ((key', v') # m) key v =
     (if key' = key then (key, v) # m else (key', v') # map_set m key v)"

text \<open>\<^verbatim>\<open>new Map(entries)\<close>.\<close>

definition new_Map :: "('k \<times> 'v) list \<Rightarrow> ('k \<times> 'v) list" where
  "new_Map entries = foldl (\<lambda>m (key, v). map_set m key v) [] entries"

text \<open>\<^verbatim>\<open>xs.sort((a, b) => f(b) - f(a))\<close>.\<close>

definition sort_desc :: "('a \<Rightarrow> real) \<Rightarrow> 'a list \<Rightarrow> 'a list" where
  "sort_desc f xs = sort_key (\<lambda>x. - f x) xs"

text \<open>\<^verbatim>\<open>xs.slice(0, end)\<close>; a negative end counts from the end of the array.\<close>

definition slice0 :: "'a list \<Rightarrow> int \<Rightarrow> 'a list" where
  "slice0 xs e = (if e < 0 then take (nat (int (length xs) + e)) xs else take (nat e) xs)"

text \<open>\<^verbatim>\<open>xs.map((x, index) => ...)\<close> needs the positions.\<close>

definition indexed :: "'a list \<Rightarrow> ('a \<times> nat) list" where
  "indexed xs = zip xs [0 ..< length xs]"

text \<open>\<^verbatim>\<open>xs[i]\<close>, \<^verbatim>\<open>undefined\<close> out of range.\<close>

definition at_index :: "'a list \<Rightarrow> nat \<Rightarrow> 'a option" where
  "at_index xs i = (if i < length xs then Some (xs ! i) else None)"

text \<open>\<^verbatim>\<open>xs.map(f)\<close> for an \<open>f\<close> that may throw: the first exception ends the loop.\<close>

fun map_throwing :: "('a \<Rightarrow> error + 'b) \<Rightarrow> 'a list \<Rightarrow> error + 'b list" where
  "map_throwing f [] = Inr []"
| "map_throwing f (x # xs) =
     (case f x of
        Inl err \<Rightarrow> Inl err
      | Inr y \<Rightarrow> (case map_throwing f xs of Inl err \<Rightarrow> Inl err | Inr ys \<Rightarrow> Inr (y # ys)))"

text \<open>\<^verbatim>\<open>!process.env.X\<close>: the variable is unset or the empty string.\<close>

definition unset :: "string option \<Rightarrow> bool" where
  "unset v = (case v of None \<Rightarrow> True | Some s \<Rightarrow> s = [])"

subsection \<open>The embedding store\<close>

definition loadEmbeddings :: "env \<Rightarrow> error + PostEmbedding list" where
  "loadEmbeddings e = (case store e of None \<Rightarrow> Inl LoadError | Some posts \<Rightarrow> Inr posts)"

text \<open>The template literal \<^verbatim>\<open>`${postIndex}-${mediaIndex}`\<close> on two integers.\<close>

definition getKey :: "int \<Rightarrow> int \<Rightarrow> string" where
  "getKey p m = show_int p @ ''-'' @ show_int m"

text \<open>The same literal on the fields of a fused result.\<close>

definition fused_key :: "FusedResult \<Rightarrow> string" where
  "fused_key fused = toString (fusedPostIndex fused) @ ''-'' @ toString (fusedMediaIndex fused)"

definition embeddingMap :: "PostEmbedding list \<Rightarrow> (string \<times> PostEmbedding) list" where
  "embeddingMap embeddings =
     new_Map (map (\<lambda>post. (getKey (postIndex post) (mediaIndex post), post)) embeddings)"

definition toSearchResult :: "PostEmbedding \<Rightarrow> real \<Rightarrow> SearchResult" where
  "toSearchResult post s =
     \<lparr>postIndex = postIndex post, mediaIndex = mediaIndex post, title = title post,
      uri = uri post, isVideo = isVideo post, creationTimestamp = creationTimestamp post,
      similarity = s\<rparr>"

subsection \<open>Lexical scorer\<close>

text \<open>
  \<^verbatim>\<open>scores[index]\<close> is \<^verbatim>\<open>undefined\<close> beyond the array that the library returned, and
  \<^verbatim>\<open>undefined > 0\<close> is false: such a document is filtered out.
\<close>

definition positive_score :: "PostEmbedding \<times> real option \<Rightarrow> (PostEmbedding \<times> real) option" where
  "positive_score r =
     (case snd r of None \<Rightarrow> None | Some v \<Rightarrow> if v > 0 then Some (fst r, v) else None)"

definition getKeywordRanks ::
  "env \<Rightarrow> jsstring \<Rightarrow> PostEmbedding list \<Rightarrow> KeywordSearchResult list" where
  "getKeywordRanks e query embeddings =
     (if blank query then []
      else
        let queryTokens = tokenize query in
        if length queryTokens = 0 then []
        else
          let documents = map title embeddings;
              scores = BM25 e documents queryTokens 1.3 0.9;
              resultsWithScores =
                List.map_filter positive_score
                  (map (\<lambda>(post, index). (post, at_index scores index)) (indexed embeddings))
          in map (\<lambda>(result, index).
                    \<lparr>postIndex = postIndex (fst result), mediaIndex = mediaIndex (fst result),
                     rank = index + 1, score = snd result\<rparr>)
               (indexed (sort_desc snd resultsWithScores)))"

subsection \<open>Semantic scorer\<close>

text \<open>The call \<^verbatim>\<open>cosineSimilarity(queryEmbedding, post.embedding)\<close>, which may throw.\<close>

definition similarity_of :: "env \<Rightarrow> real list \<Rightarrow> PostEmbedding \<Rightarrow> error + real" where
  "similarity_of e queryEmbedding post =
     (case cosineSimilarity e queryEmbedding (embedding post) of
        Inl msg \<Rightarrow> Inl (SimilarityError msg)
      | Inr s \<Rightarrow> Inr s)"

text \<open>
  The second component of the result lists the texts sent to the embedding provider, in
  the order of the calls.
\<close>

definition getSemanticRanks ::
  "env \<Rightarrow> jsstring \<Rightarrow> PostEmbedding list \<Rightarrow> (error + RankedResult list) \<times> jsstring list" where
  "getSemanticRanks e query embeddings =
     (if blank query then (Inr [], [])
      else if unset (GOOGLE_GENERATIVE_AI_API_KEY e) then (Inl ConfigurationError, [])
      else
        case embed e query of
          Inl msg \<Rightarrow> (Inl (EmbeddingProviderError msg), [query])
        | Inr queryEmbedding \<Rightarrow>
            (case map_throwing
                    (\<lambda>post. case similarity_of e queryEmbedding post of
                               Inl err \<Rightarrow> Inl err
                             | Inr s \<Rightarrow> Inr (post, s))
                    embeddings of
               Inl err \<Rightarrow> (Inl err, [query])
             | Inr resultsWithScores \<Rightarrow>
                 (Inr (map (\<lambda>(result, index).
                              \<lparr>postIndex = postIndex (fst result),
                               mediaIndex = mediaIndex (fst result), rank = index + 1\<rparr>)
                         (indexed (sort_desc snd resultsWithScores))),
                  [query])))"

definition searchPosts ::
  "env \<Rightarrow> jsstring \<Rightarrow> int \<Rightarrow> (error + SearchResult list) \<times> jsstring list" where
  "searchPosts e query topK =
     (if blank query then (Inr [], [])
      else if unset (GOOGLE_GENERATIVE_AI_API_KEY e) then (Inl ConfigurationError, [])
      else
        case loadEmbeddings e of
          Inl err \<Rightarrow> (Inl err, [])
        | Inr embeddings \<Rightarrow>
            (case embed e query of
               Inl msg \<Rightarrow> (Inl (EmbeddingProviderError msg), [query])
             | Inr queryEmbedding \<Rightarrow>
                 (case map_throwing
                         (\<lambda>post. case similarity_of e queryEmbedding post of
                                    Inl err \<Rightarrow> Inl err
                                  | Inr s \<Rightarrow> Inr (toSearchResult post s))
                         embeddings of
                    Inl err \<Rightarrow> (Inl err, [query])
                  | Inr results \<Rightarrow>
                      (Inr (slice0 (sort_desc similarity results) topK), [query]))))"

subsection \<open>Fusion engine\<close>

text \<open>
  One step of either \<^verbatim>\<open>forEach\<close> loop. \<^verbatim>\<open>rrfScores.get(key) || 0\<close> is the stored score,
  or 0 for a new key. The division is that of the reals; the quotient of the source is
  infinite when \<^verbatim>\<open>k + rank\<close> is 0, which needs a rank below 1 or a negative \<open>k\<close>.
\<close>

definition add_contribution ::
  "real \<Rightarrow> (string \<times> real) list \<Rightarrow> 'a RankedResult_scheme \<Rightarrow> (string \<times> real) list" where
  "add_contribution k rrfScores result =
     (let key = getKey (postIndex result) (mediaIndex result);
          currentScore = (case map_get rrfScores key of None \<Rightarrow> 0 | Some s \<Rightarrow> s)
      in map_set rrfScores key (currentScore + 1 / (k + real (rank result))))"

text \<open>The map \<^verbatim>\<open>rrfScores\<close> after both loops.\<close>

definition rrfScores ::
  "'a RankedResult_scheme list \<Rightarrow> 'b RankedResult_scheme list \<Rightarrow> real \<Rightarrow> (string \<times> real) list" where
  "rrfScores semanticRanks keywordRanks k =
     foldl (add_contribution k) (foldl (add_contribution k) [] semanticRanks) keywordRanks"

text \<open>\<^verbatim>\<open>const [postIndex, mediaIndex] = key.split('-').map(Number)\<close>.\<close>

definition decode_key :: "string \<Rightarrow> jsnum \<times> jsnum" where
  "decode_key key =
     (case map Number (split_on CHR ''-'' [] key) of
        [] \<Rightarrow> (Undefined, Undefined)
      | [a] \<Rightarrow> (a, Undefined)
      | a # b # _ \<Rightarrow> (a, b))"

definition toFused :: "string \<times> real \<Rightarrow> FusedResult" where
  "toFused entry =
     \<lparr>fusedPostIndex = fst (decode_key (fst entry)),
      fusedMediaIndex = snd (decode_key (fst entry)),
      rrfScore = snd entry\<rparr>"

definition fuseRRF ::
  "'a RankedResult_scheme list \<Rightarrow> 'b RankedResult_scheme list \<Rightarrow> real \<Rightarrow> FusedResult list" where
  "fuseRRF semanticRanks keywordRanks k =
     sort_desc rrfScore (map toFused (rrfScores semanticRanks keywordRanks k))"

subsection \<open>Search modes\<close>

definition resolve_fused ::
  "(string \<times> PostEmbedding) list \<Rightarrow> FusedResult \<Rightarrow> error + SearchResult" where
  "resolve_fused m fused =
     (let key = fused_key fused in
      case map_get m key of
        None \<Rightarrow> Inl (PostNotFound key)
      | Some post \<Rightarrow> Inr (toSearchResult post (rrfScore fused)))"

definition hybridSearch ::
  "env \<Rightarrow> jsstring \<Rightarrow> int \<Rightarrow> (error + SearchResult list) \<times> jsstring list" where
  "hybridSearch e query topK =
     (if blank query then (Inr [], [])
      else
        case loadEmbeddings e of
          Inl err \<Rightarrow> (Inl err, [])
        | Inr embeddings \<Rightarrow>
            (case getSemanticRanks e query embeddings of
               (Inl err, calls) \<Rightarrow> (Inl err, calls)
             | (Inr semanticRanks, calls) \<Rightarrow>
                 let keywordRanks = getKeywordRanks e query embeddings;
                     fusedResults = fuseRRF semanticRanks keywordRanks 60
                 in (map_throwing (resolve_fused (embeddingMap embeddings))
                       (slice0 fusedResults topK),
                     calls)))"

definition resolve_ranked ::
  "(string \<times> PostEmbedding) list \<Rightarrow> KeywordSearchResult \<Rightarrow> error + SearchResult" where
  "resolve_ranked m ranked =
     (let key = getKey (postIndex ranked) (mediaIndex ranked) in
      case map_get m key of
        None \<Rightarrow> Inl (PostNotFound key)
      | Some post \<Rightarrow> Inr (toSearchResult post (score ranked)))"

definition keywordSearch :: "env \<Rightarrow> jsstring \<Rightarrow> int \<Rightarrow> error + SearchResult list" where
  "keywordSearch e query topK =
     (if blank query then Inr []
      else
        case loadEmbeddings e of
          Inl err \<Rightarrow> Inl err
        | Inr embeddings \<Rightarrow>
            let keywordRanks = getKeywordRanks e query embeddings
            in map_throwing (resolve_ranked (embeddingMap embeddings))
                 (slice0 keywordRanks topK))"

subsection \<open>Notions used in the statements\<close>

text \<open>
  The white space and line terminators of ECMAScript, which \<^verbatim>\<open>String.prototype.trim\<close>
  strips: TAB, LF, VT, FF, CR, SPACE, NO-BREAK SPACE, U+1680, U+2000 to U+200A, U+2028,
  U+2029, U+202F, U+205F, U+3000 and U+FEFF.
\<close>

definition white_space :: "int set" where
  "white_space =
     {0x9, 0xA, 0xB, 0xC, 0xD, 0x20, 0xA0, 0x1680, 0x2028, 0x2029, 0x202F, 0x205F, 0x3000,
      0xFEFF} \<union> {0x2000 .. 0x200A}"

text \<open>The identity of a document, as a pair and as the string key of the maps.\<close>

definition doc_key :: "'a DocKey_scheme \<Rightarrow> int \<times> int" where
  "doc_key d = (postIndex d, mediaIndex d)"

definition key_string :: "'a DocKey_scheme \<Rightarrow> string" where
  "key_string d = getKey (postIndex d) (mediaIndex d)"

definition nonneg_key :: "'a DocKey_scheme \<Rightarrow> bool" where
  "nonneg_key d = (0 \<le> postIndex d \<and> 0 \<le> mediaIndex d)"

definition fused_doc :: "FusedResult \<Rightarrow> jsnum \<times> jsnum" where
  "fused_doc f = (fusedPostIndex f, fusedMediaIndex f)"

text \<open>The fused score that an output list gives to a document, if the document is in it.\<close>

definition fused_score :: "FusedResult list \<Rightarrow> int \<times> int \<Rightarrow> real option" where
  "fused_score out d =
     map_of (map (\<lambda>f. (fused_doc f, rrfScore f)) out) (Num (fst d), Num (snd d))"

text \<open>The sum of the reciprocal ranks that one list contributes to a key.\<close>

definition contribution :: "real \<Rightarrow> 'a RankedResult_scheme list \<Rightarrow> string \<Rightarrow> real" where
  "contribution k xs key =
     sum_list (map (\<lambda>r. 1 / (k + real (rank r))) (filter (\<lambda>r. key_string r = key) xs))"

definition score_or0 :: "(string \<times> real) list \<Rightarrow> string \<Rightarrow> real" where
  "score_or0 m key = (case map_get m key of None \<Rightarrow> 0 | Some s \<Rightarrow> s)"

text \<open>The elements of a list in the order of their first occurrence.\<close>

fun first_occurrences :: "'a list \<Rightarrow> 'a list" where
  "first_occurrences [] = []"
| "first_occurrences (x # xs) = x # filter (\<lambda>y. y \<noteq> x) (first_occurrences xs)"

text \<open>The optional sign and the digits that a string starts with.\<close>

definition lead :: "string \<Rightarrow> string" where
  "lead s = (case s of [] \<Rightarrow> [] | c # cs \<Rightarrow>
      if c = CHR ''-'' then c # takeWhile is_digit cs else takeWhile is_digit s)"

text \<open>The position of a fused document in a corpus, and ties in corpus order.\<close>

fun index_of :: "'a list \<Rightarrow> 'a \<Rightarrow> nat" where
  "index_of [] x = 0"
| "index_of (y # ys) x = (if y = x then 0 else Suc (index_of ys x))"

definition corpus_position :: "'a DocKey_scheme list \<Rightarrow> FusedResult \<Rightarrow> nat" where
  "corpus_position corpus f =
     index_of (map (\<lambda>d. (Num (postIndex d), Num (mediaIndex d))) corpus) (fused_doc f)"

fun ties_in_corpus_order :: "'a DocKey_scheme list \<Rightarrow> FusedResult list \<Rightarrow> bool" where
  "ties_in_corpus_order corpus [] = True"
| "ties_in_corpus_order corpus (f # fs) =
     (list_all (\<lambda>g. rrfScore g = rrfScore f \<longrightarrow>
                   corpus_position corpus f \<le> corpus_position corpus g) fs
      \<and> ties_in_corpus_order corpus fs)"

text \<open>The score of the document at a position, 0 where the library returned no entry.\<close>

definition score_at :: "real list \<Rightarrow> nat \<Rightarrow> real" where
  "score_at scores i = (if i < length scores then scores ! i else 0)"

text \<open>
  The positions of a corpus with a positive score, in descending order of the score, and
  all positions of a corpus in descending order of a similarity.
\<close>

definition keyword_order :: "real list \<Rightarrow> PostEmbedding list \<Rightarrow> nat list" where
  "keyword_order scores corpus =
     sort_desc (score_at scores) (filter (\<lambda>i. 0 < score_at scores i) [0 ..< length corpus])"

definition semantic_order :: "(PostEmbedding \<Rightarrow> real) \<Rightarrow> PostEmbedding list \<Rightarrow> nat list" where
  "semantic_order sim corpus = sort_desc (\<lambda>i. sim (corpus ! i)) [0 ..< length corpus]"

text \<open>
  The tokenizer over any table of lower-case forms, and the tables that agree with the
  source's on every code unit whose lower-case form has a code unit of \<^verbatim>\<open>[a-z0-9]\<close> and
  give a non-empty form outside \<^verbatim>\<open>[a-z0-9]\<close> to every other code unit.
\<close>

definition tokenize_with :: "(int \<Rightarrow> jsstring) \<Rightarrow> jsstring \<Rightarrow> jsstring list" where
  "tokenize_with lc text =
     filter (\<lambda>token. length token > 0) (split_runs [] (concat (map lc text)))"

definition lowers_to_alnum :: "int \<Rightarrow> bool" where
  "lowers_to_alnum c = (is_alnum c \<or> (0x41 \<le> c \<and> c \<le> 0x5A) \<or> c = 0x212A \<or> c = 0x130)"

definition case_table :: "(int \<Rightarrow> jsstring) \<Rightarrow> bool" where
  "case_table lc =
     (\<forall>c. if lowers_to_alnum c then lc c = lower_units c
          else lc c \<noteq> [] \<and> list_all (\<lambda>u. \<not> is_alnum u) (lc c))"

text \<open>The non-empty pieces of \<^verbatim>\<open>[a-z0-9]\<close> of a string, read from left to right.\<close>

fun pieces :: "jsstring \<Rightarrow> jsstring \<Rightarrow> jsstring list" where
  "pieces cur [] = (if cur = [] then [] else [cur])"
| "pieces cur (c # cs) =
     (if is_alnum c then pieces (cur @ [c]) cs
      else (if cur = [] then [] else [cur]) @ pieces [] cs)"

subsection \<open>Cosine similarity\<close>

definition dot :: "real list \<Rightarrow> real list \<Rightarrow> real" where
  "dot a b = sum_list (map2 (*) a b)"

definition magnitude :: "real list \<Rightarrow> real" where
  "magnitude a = sqrt (dot a a)"

text \<open>
  Modelled from the spec: the function \<^verbatim>\<open>cosineSimilarity\<close> of the package ai, which
  \<^verbatim>\<open>searchPosts\<close> and \<^verbatim>\<open>getSemanticRanks\<close> call and the repository does not contain. The
  specification (4.3) defines it as the dot product divided by the product of the two
  magnitudes, and as 0 if either vector has zero magnitude.
\<close>

definition cosineSimilarity_spec :: "real list \<Rightarrow> real list \<Rightarrow> real" where
  "cosineSimilarity_spec a b =
     (if magnitude a = 0 \<or> magnitude b = 0 then 0
      else dot a b / (magnitude a * magnitude b))"

subsection \<open>An example store and environment\<close>

text \<open>
  The two documents of the scenario of the specification, with unit vectors as
  embeddings. The two library functions are replaced by stand-ins: the number of
  query tokens that occur in a document, and the dot product (the cosine of unit vectors),
  which rejects two vectors of different lengths.
\<close>

definition example_corpus :: "PostEmbedding list" where
  "example_corpus =
     [\<lparr>postIndex = 0, mediaIndex = 0, title = ascii ''Lilly digs the garden'',
       uri = ascii ''a.jpg'', isVideo = False, creationTimestamp = 1625097600,
       embedding = [1, 0]\<rparr>,
      \<lparr>postIndex = 1, mediaIndex = 0, title = ascii ''Lilly eats cheese'',
       uri = ascii ''b.mp4'', isVideo = True, creationTimestamp = 1625184000,
       embedding = [0, 1]\<rparr>]"

definition example_BM25 ::
  "jsstring list \<Rightarrow> jsstring list \<Rightarrow> real \<Rightarrow> real \<Rightarrow> real list" where
  "example_BM25 documents keywords k1 b =
     map (\<lambda>d. real (length (filter (\<lambda>w. w \<in> set (tokenize d)) keywords))) documents"

definition example_similarity :: "real list \<Rightarrow> real list \<Rightarrow> string + real" where
  "example_similarity a b =
     (if length a = length b then Inr (dot a b) else Inl ''Vectors must have the same length'')"

definition example_env :: env where
  "example_env =
     \<lparr>GOOGLE_GENERATIVE_AI_API_KEY = Some ''key'', embed = (\<lambda>text. Inr [1, 0]),
      cosineSimilarity = example_similarity, BM25 = example_BM25,
      store = Some example_corpus\<rparr>"

section \<open>Proofs\<close>

subsection \<open>The key of a document and its decoding\<close>


lemma of_char_digit_char: "d < 10 \<Longrightarrow> of_char (digit_char d) = (48 + d :: nat)"
  by (simp add: digit_char_def)

lemma is_digit_digit_char: "d < 10 \<Longrightarrow> is_digit (digit_char d)"
  by (simp add: is_digit_def of_char_digit_char)

lemma digits_nonempty: "digits n \<noteq> []"
  by (subst digits.simps) simp

lemma digits_all_digit: "list_all is_digit (digits n)"
proof (induction n rule: digits.induct)
  case (1 n)
  show ?case
  proof (cases "n < 10")
    case True
    then show ?thesis by (subst digits.simps) (simp add: is_digit_digit_char)
  next
    case False
    with 1 show ?thesis by (subst digits.simps) (simp add: is_digit_digit_char)
  qed
qed

lemma digits_value_snoc: "digits_value (s @ [c]) = 10 * digits_value s + (of_char c - 48)"
  by (simp add: digits_value_def)

lemma digits_value_digits: "digits_value (digits n) = n"
proof (induction n rule: digits.induct)
  case (1 n)
  show ?case
  proof (cases "n < 10")
    case True
    then show ?thesis
      by (subst digits.simps) (simp add: digits_value_def of_char_digit_char)
  next
    case False
    with 1 show ?thesis
      by (subst digits.simps) (simp add: digits_value_snoc of_char_digit_char)
  qed
qed

lemma Number_digits: "Number (digits n) = Num (int n)"
  by (simp add: Number_def digits_nonempty digits_all_digit digits_value_digits)

lemma dash_not_digit: "\<not> is_digit CHR ''-''"
  by (simp add: is_digit_def)

lemma digits_no_dash: "CHR ''-'' \<notin> set (digits n)"
  using digits_all_digit [of n] dash_not_digit by (auto simp: list_all_iff)

lemma split_on_no_sep: "sep \<notin> set s \<Longrightarrow> split_on sep cur s = [cur @ s]"
  by (induction s arbitrary: cur) auto

lemma split_on_append:
  "sep \<notin> set a \<Longrightarrow> split_on sep cur (a @ sep # b) = (cur @ a) # split_on sep [] b"
  by (induction a arbitrary: cur) auto

lemma show_int_nonneg: "0 \<le> i \<Longrightarrow> show_int i = digits (nat i)"
  by (simp add: show_int_def)

lemma decode_key_getKey:
  assumes "0 \<le> p" "0 \<le> m"
  shows "decode_key (getKey p m) = (Num p, Num m)"
  using assms
  by (simp add: decode_key_def getKey_def show_int_nonneg split_on_append split_on_no_sep
      digits_no_dash Number_digits)

lemma fused_key_toFused:
  assumes "0 \<le> p" "0 \<le> m"
  shows "fused_key (toFused (getKey p m, s)) = getKey p m"
  using assms by (simp add: fused_key_def toFused_def decode_key_getKey toString_def) (simp add: getKey_def)

lemma takeWhile_digits: "takeWhile is_digit (digits n @ CHR ''-'' # r) = digits n"
  using digits_all_digit [of n] by (simp add: takeWhile_append2 list_all_iff dash_not_digit)

lemma hd_digits_not_dash: "digits n = c # cs \<Longrightarrow> c \<noteq> CHR ''-''"
  using digits_no_dash [of n] by auto

lemma lead_show_int: "lead (show_int i @ CHR ''-'' # r) = show_int i"
proof (cases "i < 0")
  case True
  then show ?thesis by (simp add: lead_def show_int_def takeWhile_digits)
next
  case False
  obtain c cs where d: "digits (nat i) = c # cs"
    using digits_nonempty [of "nat i"] by (cases "digits (nat i)") auto
  have "c \<noteq> CHR ''-''" using d by (rule hd_digits_not_dash)
  moreover have "takeWhile is_digit ((c # cs) @ CHR ''-'' # r) = c # cs"
    using takeWhile_digits [of "nat i" r] d by simp
  ultimately show ?thesis using False d by (simp add: lead_def show_int_def)
qed

lemma digits_inj: "digits a = digits b \<Longrightarrow> a = b"
  by (metis digits_value_digits)

lemma show_int_inj: "show_int i = show_int j \<Longrightarrow> i = j"
proof -
  assume eq: "show_int i = show_int j"
  have neg: "show_int x \<noteq> [] \<and> (hd (show_int x) = CHR ''-'') = (x < 0)" for x
  proof (cases "x < 0")
    case True then show ?thesis by (simp add: show_int_def)
  next
    case False
    obtain c cs where d: "digits (nat x) = c # cs"
      using digits_nonempty [of "nat x"] by (cases "digits (nat x)") auto
    with False hd_digits_not_dash [OF d] show ?thesis by (simp add: show_int_def)
  qed
  from eq neg [of i] neg [of j] have s: "(i < 0) = (j < 0)" by simp
  show "i = j"
  proof (cases "i < 0")
    case True
    with s eq have "digits (nat (- i)) = digits (nat (- j))" by (simp add: show_int_def)
    then have "nat (- i) = nat (- j)" by (rule digits_inj)
    with True s show ?thesis by simp
  next
    case False
    with s eq have "digits (nat i) = digits (nat j)" by (simp add: show_int_def)
    then have "nat i = nat j" by (rule digits_inj)
    with False s show ?thesis by simp
  qed
qed

lemma getKey_inj: "getKey p m = getKey p' m' \<longleftrightarrow> p = p' \<and> m = m'"
proof
  assume eq: "getKey p m = getKey p' m'"
  then have "lead (show_int p @ CHR ''-'' # show_int m) = lead (show_int p' @ CHR ''-'' # show_int m')"
    by (simp add: getKey_def)
  then have 1: "show_int p = show_int p'" by (simp only: lead_show_int)
  with eq have "show_int m = show_int m'" by (simp add: getKey_def)
  with 1 show "p = p' \<and> m = m'" by (auto dest: show_int_inj)
qed simp

subsection \<open>The score map of the fusion\<close>

lemma map_of_map_set: "map_of (map_set m key v) = (map_of m)(key \<mapsto> v)"
  by (induction m key v rule: map_set.induct) auto

lemma keys_map_set:
  "map fst (map_set m key v) = (if key \<in> fst ` set m then map fst m else map fst m @ [key])"
  by (induction m key v rule: map_set.induct) (auto simp: image_iff)

lemma distinct_map_set: "distinct (map fst m) \<Longrightarrow> distinct (map fst (map_set m key v))"
  by (simp add: keys_map_set)

lemma keys_add_contribution:
  "map fst (add_contribution k m r) =
     (if key_string r \<in> fst ` set m then map fst m else map fst m @ [key_string r])"
  by (simp add: add_contribution_def Let_def keys_map_set key_string_def)

lemma score_add_contribution:
  "score_or0 (add_contribution k m r) key =
     score_or0 m key + (if key_string r = key then 1 / (k + real (rank r)) else 0)"
  by (auto simp: add_contribution_def Let_def score_or0_def map_get_def map_of_map_set key_string_def)

lemma keys_foldl_add:
  "map fst (foldl (add_contribution k) m xs) =
     map fst m @ filter (\<lambda>key. key \<notin> fst ` set m) (first_occurrences (map key_string xs))"
proof (induction xs arbitrary: m)
  case Nil
  show ?case by simp
next
  case (Cons x xs)
  let ?m' = "add_contribution k m x"
  have set': "fst ` set ?m' = insert (key_string x) (fst ` set m)"
    using keys_add_contribution [of k m x]
    by (metis (no_types, lifting) Un_insert_right append_Nil2 insert_absorb list.set(2) list.set_map set_append)
  show ?case
  proof (cases "key_string x \<in> fst ` set m")
    case True
    then have "map fst ?m' = map fst m" by (simp add: keys_add_contribution)
    moreover have "fst ` set ?m' = fst ` set m" using set' True by auto
    moreover have "filter (\<lambda>key. key \<notin> fst ` set m) (filter (\<lambda>y. y \<noteq> key_string x) ys)
        = filter (\<lambda>key. key \<notin> fst ` set m) ys" for ys
      using True by (induction ys) auto
    ultimately show ?thesis using True Cons.IH [of ?m'] by simp
  next
    case False
    then have "map fst ?m' = map fst m @ [key_string x]" by (simp add: keys_add_contribution)
    moreover have "filter (\<lambda>key. key \<notin> insert (key_string x) (fst ` set m)) ys
        = filter (\<lambda>key. key \<notin> fst ` set m) (filter (\<lambda>y. y \<noteq> key_string x) ys)" for ys
      by (induction ys) auto
    ultimately show ?thesis using False Cons.IH [of ?m'] set' by simp
  qed
qed

lemma score_foldl_add:
  "score_or0 (foldl (add_contribution k) m xs) key = score_or0 m key + contribution k xs key"
  by (induction xs arbitrary: m) (auto simp: score_add_contribution contribution_def)

lemma distinct_foldl_add:
  "distinct (map fst m) \<Longrightarrow> distinct (map fst (foldl (add_contribution k) m xs))"
  by (induction xs arbitrary: m) (auto simp: keys_add_contribution)

lemma set_first_occurrences: "set (first_occurrences xs) = set xs"
  by (induction xs) auto

lemma distinct_first_occurrences: "distinct (first_occurrences xs)"
  by (induction xs) (auto simp: set_first_occurrences)

lemma first_occurrences_append:
  "first_occurrences (xs @ ys) =
     first_occurrences xs @ filter (\<lambda>y. y \<notin> set xs) (first_occurrences ys)"
proof (induction xs)
  case Nil show ?case by simp
next
  case (Cons x xs)
  have "filter (\<lambda>y. y \<noteq> x) (filter (\<lambda>y. y \<notin> set xs) zs) = filter (\<lambda>y. y \<noteq> x \<and> y \<notin> set xs) zs" for zs
    by (induction zs) auto
  with Cons show ?case by (simp add: conj_commute)
qed

lemma set_keys_foldl_add:
  "fst ` set (foldl (add_contribution k) m xs) = fst ` set m \<union> key_string ` set xs"
proof -
  have "set (map fst (foldl (add_contribution k) m xs)) = fst ` set m \<union> key_string ` set xs"
    unfolding keys_foldl_add by (auto simp: set_first_occurrences)
  then show ?thesis by simp
qed

lemma keys_rrfScores:
  "map fst (rrfScores sem kw k) = first_occurrences (map key_string sem @ map key_string kw)"
  by (simp add: rrfScores_def keys_foldl_add [of k _ kw] set_keys_foldl_add
      first_occurrences_append) (simp add: keys_foldl_add)

lemma score_rrfScores:
  "score_or0 (rrfScores sem kw k) key = contribution k sem key + contribution k kw key"
proof -
  have "score_or0 [] key = 0" by (simp add: score_or0_def map_get_def)
  then show ?thesis by (simp add: rrfScores_def score_foldl_add)
qed

lemma distinct_rrfScores: "distinct (map fst (rrfScores sem kw k))"
  by (simp add: keys_rrfScores distinct_first_occurrences)

lemma set_keys_rrfScores:
  "fst ` set (rrfScores sem kw k) = key_string ` set sem \<union> key_string ` set kw"
  using arg_cong [OF keys_rrfScores [of sem kw k], of set]
  by (simp add: set_first_occurrences)

lemma map_of_rrfScores:
  "map_of (rrfScores sem kw k) key =
     (if key \<in> key_string ` set sem \<union> key_string ` set kw
      then Some (contribution k sem key + contribution k kw key) else None)"
proof (cases "key \<in> fst ` set (rrfScores sem kw k)")
  case True
  then obtain v where v: "map_of (rrfScores sem kw k) key = Some v"
    by (metis domD dom_map_of_conv_image_fst)
  then have "score_or0 (rrfScores sem kw k) key = v" by (simp add: score_or0_def map_get_def)
  with v True show ?thesis by (simp add: score_rrfScores set_keys_rrfScores)
next
  case False
  then have "map_of (rrfScores sem kw k) key = None" by (simp add: map_of_eq_None_iff)
  with False show ?thesis by (simp add: set_keys_rrfScores)
qed

lemma key_string_doc_key: "key_string r = getKey (fst (doc_key r)) (snd (doc_key r))"
  by (simp add: key_string_def doc_key_def)

lemma key_string_eq_iff: "key_string a = key_string b \<longleftrightarrow> doc_key a = doc_key b"
  by (simp add: key_string_def doc_key_def getKey_inj)

lemma distinct_key_string:
  "distinct (map doc_key xs) \<Longrightarrow> distinct (map key_string xs)"
proof (induction xs)
  case Nil show ?case by simp
next
  case (Cons x xs)
  then show ?case by (auto simp: key_string_eq_iff image_iff)
qed

lemma contribution_absent:
  "key \<notin> key_string ` set xs \<Longrightarrow> contribution k xs key = 0"
proof -
  assume "key \<notin> key_string ` set xs"
  then have "filter (\<lambda>r. key_string r = key) xs = []" by (auto simp: filter_empty_conv)
  then show ?thesis by (simp add: contribution_def)
qed

lemma contribution_present:
  "distinct (map key_string xs) \<Longrightarrow> r \<in> set xs \<Longrightarrow>
   contribution k xs (key_string r) = 1 / (k + real (rank r))"
proof (induction xs)
  case Nil then show ?case by simp
next
  case (Cons x xs)
  show ?case
  proof (cases "r = x")
    case True
    with Cons.prems have "key_string x \<notin> key_string ` set xs" by simp
    then have "contribution k xs (key_string x) = 0" by (rule contribution_absent)
    with True show ?thesis by (simp add: contribution_def)
  next
    case False
    with Cons.prems have r: "r \<in> set xs" and ne: "key_string x \<noteq> key_string r"
      by (auto simp: image_iff)
    with Cons have "contribution k xs (key_string r) = 1 / (k + real (rank r))" by simp
    with ne show ?thesis by (simp add: contribution_def)
  qed
qed

lemma map_of_map_key:
  "inj_on f (insert key (fst ` set m)) \<Longrightarrow>
   map_of (map (\<lambda>entry. (f (fst entry), snd entry)) m) (f key) = map_of m key"
proof (induction m)
  case Nil show ?case by simp
next
  case (Cons a m)
  from Cons.prems have "inj_on f (insert key (fst ` set m))"
    by (auto simp: inj_on_def)
  with Cons.IH have IH: "map_of (map (\<lambda>entry. (f (fst entry), snd entry)) m) (f key) = map_of m key"
    by simp
  have "f (fst a) = f key \<longleftrightarrow> fst a = key"
    using Cons.prems by (auto simp: inj_on_def)
  with IH show ?case by (cases a) auto
qed

lemma decode_key_string: "nonneg_key r \<Longrightarrow> decode_key (key_string r) = (Num (postIndex r), Num (mediaIndex r))"
  by (simp add: nonneg_key_def key_string_def decode_key_getKey)

lemma fused_doc_toFused: "fused_doc (toFused entry) = decode_key (fst entry)"
  by (simp add: fused_doc_def toFused_def)

lemma set_fuseRRF: "set (fuseRRF sem kw k) = toFused ` set (rrfScores sem kw k)"
  by (simp add: fuseRRF_def sort_desc_def)

lemma mset_fuseRRF: "mset (fuseRRF sem kw k) = mset (map toFused (rrfScores sem kw k))"
  by (simp add: fuseRRF_def sort_desc_def)

lemma distinct_map_inj_on: "distinct xs \<Longrightarrow> inj_on f (set xs) \<Longrightarrow> distinct (map f xs)"
  by (simp add: distinct_map)

lemma mset_map_eq: "mset xs = mset ys \<Longrightarrow> mset (map f xs) = mset (map f ys)"
  by simp

lemma decode_inj_on_keys:
  assumes "\<forall>r\<in>set sem. nonneg_key r" "\<forall>r\<in>set kw. nonneg_key r" "0 \<le> p" "0 \<le> m"
  shows "inj_on decode_key (insert (getKey p m) (fst ` set (rrfScores sem kw k)))"
proof -
  have "\<exists>a b. 0 \<le> a \<and> 0 \<le> b \<and> key = getKey a b"
    if "key \<in> insert (getKey p m) (fst ` set (rrfScores sem kw k))" for key
    using that assms unfolding set_keys_rrfScores
    by (auto simp: key_string_def nonneg_key_def)
  then show ?thesis
    by (intro inj_onI) (metis decode_key_getKey prod.inject jsnum.inject)
qed

lemma distinct_fused_docs:
  assumes "\<forall>r\<in>set sem. nonneg_key r" "\<forall>r\<in>set kw. nonneg_key r"
  shows "distinct (map fused_doc (fuseRRF sem kw k))"
proof -
  have inj: "inj_on decode_key (fst ` set (rrfScores sem kw k))"
    using decode_inj_on_keys [OF assms, of 0 0 k] by (auto simp: inj_on_def)
  have eq: "map fused_doc (map toFused (rrfScores sem kw k)) = map decode_key (map fst (rrfScores sem kw k))"
    by (simp add: fused_doc_toFused)
  have "distinct (map decode_key (map fst (rrfScores sem kw k)))"
    by (rule distinct_map_inj_on) (use inj distinct_rrfScores [of sem kw k] in simp_all)
  then have "distinct (map fused_doc (map toFused (rrfScores sem kw k)))"
    unfolding eq .
  moreover have "mset (map fused_doc (fuseRRF sem kw k)) = mset (map fused_doc (map toFused (rrfScores sem kw k)))"
    by (rule mset_map_eq) (rule mset_fuseRRF)
  ultimately show ?thesis by (metis mset_eq_imp_distinct_iff)
qed

lemma fused_score_fuseRRF:
  assumes "\<forall>r\<in>set sem. nonneg_key r" "\<forall>r\<in>set kw. nonneg_key r" "0 \<le> fst d" "0 \<le> snd d"
  shows "fused_score (fuseRRF sem kw k) d = map_of (rrfScores sem kw k) (getKey (fst d) (snd d))"
proof -
  let ?E = "rrfScores sem kw k"
  let ?g = "\<lambda>f. (fused_doc f, rrfScore f)"
  let ?A = "map ?g (fuseRRF sem kw k)"
  let ?B = "map (\<lambda>entry. (decode_key (fst entry), snd entry)) ?E"
  have B: "?B = map ?g (map toFused ?E)"
    by (simp add: fused_doc_def toFused_def)
  have dA: "distinct (map fst ?A)"
    using distinct_fused_docs [OF assms(1,2), of k] by (simp add: comp_def)
  have mAB: "mset ?A = mset ?B"
    unfolding B by (rule mset_map_eq) (rule mset_fuseRRF)
  have sAB: "set ?A = set ?B" using mAB by (rule mset_eq_setD)
  have "mset (map fst ?A) = mset (map fst ?B)"
    using mAB by (rule mset_map_eq)
  then have "distinct (map fst ?A) = distinct (map fst ?B)" by (rule mset_eq_imp_distinct_iff)
  with dA have dB: "distinct (map fst ?B)" by simp
  have "map_of ?A = map_of ?B" using dA dB sAB by (rule iffD2 [OF map_of_inject_set])
  moreover have "map_of ?B (decode_key (getKey (fst d) (snd d))) = map_of ?E (getKey (fst d) (snd d))"
    using decode_inj_on_keys [OF assms] by (rule map_of_map_key)
  moreover have "fused_score (fuseRRF sem kw k) d = map_of ?A (decode_key (getKey (fst d) (snd d)))"
    using assms(3,4) by (simp add: fused_score_def fused_doc_def decode_key_getKey)
  ultimately show ?thesis by simp
qed

subsection \<open>C1: the fused score is the sum of the reciprocal ranks\<close>

text \<open>
  Claim C1. For two ranked lists with 1-indexed ranks, a constant \<open>k \<ge> 0\<close>, documents with
  non-negative indices and no document twice in one list: a document at rank \<open>r1\<close> in the
  first list and \<open>r2\<close> in the second has the fused score \<open>1/(k+r1) + 1/(k+r2)\<close>; a
  document in one list only, at rank \<open>r\<close>, has the fused score \<open>1/(k+r)\<close>; every
  entry of the output is a document of one of the lists, and no document is listed twice.
\<close>

theorem fuseRRF_scores:
  fixes sem :: "'a RankedResult_scheme list" and kw :: "'b RankedResult_scheme list"
  assumes k: "0 \<le> k"
    and sem: "\<forall>r\<in>set sem. nonneg_key r \<and> 1 \<le> rank r"
    and kw: "\<forall>r\<in>set kw. nonneg_key r \<and> 1 \<le> rank r"
    and dsem: "distinct (map doc_key sem)"
    and dkw: "distinct (map doc_key kw)"
  shows "(\<forall>a\<in>set sem. \<forall>b\<in>set kw. doc_key a = doc_key b \<longrightarrow>
            fused_score (fuseRRF sem kw k) (doc_key a)
              = Some (1 / (k + real (rank a)) + 1 / (k + real (rank b))))
       \<and> (\<forall>a\<in>set sem. doc_key a \<notin> doc_key ` set kw \<longrightarrow>
            fused_score (fuseRRF sem kw k) (doc_key a) = Some (1 / (k + real (rank a))))
       \<and> (\<forall>b\<in>set kw. doc_key b \<notin> doc_key ` set sem \<longrightarrow>
            fused_score (fuseRRF sem kw k) (doc_key b) = Some (1 / (k + real (rank b))))
       \<and> (\<forall>f\<in>set (fuseRRF sem kw k). \<exists>d\<in>doc_key ` set sem \<union> doc_key ` set kw.
            fused_doc f = (Num (fst d), Num (snd d)))
       \<and> distinct (map fused_doc (fuseRRF sem kw k))"
proof -
  let ?out = "fuseRRF sem kw k"
  have nsem: "\<forall>r\<in>set sem. nonneg_key r" and nkw: "\<forall>r\<in>set kw. nonneg_key r"
    using sem kw by auto
  have look: "fused_score ?out (doc_key r) =
      (if key_string r \<in> key_string ` set sem \<union> key_string ` set kw
       then Some (contribution k sem (key_string r) + contribution k kw (key_string r)) else None)"
    if "nonneg_key r" for r :: "'c RankedResult_scheme"
  proof -
    from that have "0 \<le> fst (doc_key r)" "0 \<le> snd (doc_key r)"
      by (simp_all add: nonneg_key_def doc_key_def)
    from fused_score_fuseRRF [OF nsem nkw this, of k] show ?thesis
      by (simp add: map_of_rrfScores key_string_doc_key [symmetric])
  qed
  have ks: "key_string a \<in> key_string ` set xs \<longleftrightarrow> doc_key a \<in> doc_key ` set xs"
    for a :: "'c RankedResult_scheme" and xs :: "'d RankedResult_scheme list"
    by (auto simp: image_iff key_string_eq_iff)
  have both: "fused_score ?out (doc_key a) = Some (1 / (k + real (rank a)) + 1 / (k + real (rank b)))"
    if "a \<in> set sem" "b \<in> set kw" "doc_key a = doc_key b" for a b
  proof -
    have eq: "key_string a = key_string b" using that(3) by (simp add: key_string_eq_iff)
    have "contribution k sem (key_string a) = 1 / (k + real (rank a))"
      using distinct_key_string [OF dsem] that(1) by (rule contribution_present)
    moreover have "contribution k kw (key_string b) = 1 / (k + real (rank b))"
      using distinct_key_string [OF dkw] that(2) by (rule contribution_present)
    moreover have "key_string a \<in> key_string ` set sem" using that(1) by simp
    moreover have "nonneg_key a" using nsem that(1) by simp
    ultimately show ?thesis using look [of a] by (simp add: eq)
  qed
  have only_sem: "fused_score ?out (doc_key a) = Some (1 / (k + real (rank a)))"
    if "a \<in> set sem" "doc_key a \<notin> doc_key ` set kw" for a
  proof -
    have "contribution k sem (key_string a) = 1 / (k + real (rank a))"
      using distinct_key_string [OF dsem] that(1) by (rule contribution_present)
    moreover have "contribution k kw (key_string a) = 0"
      using that(2) by (intro contribution_absent) (simp add: ks)
    ultimately show ?thesis using look [of a] nsem that(1) by auto
  qed
  have only_kw: "fused_score ?out (doc_key b) = Some (1 / (k + real (rank b)))"
    if "b \<in> set kw" "doc_key b \<notin> doc_key ` set sem" for b
  proof -
    have "contribution k kw (key_string b) = 1 / (k + real (rank b))"
      using distinct_key_string [OF dkw] that(1) by (rule contribution_present)
    moreover have "contribution k sem (key_string b) = 0"
      using that(2) by (intro contribution_absent) (simp add: ks)
    ultimately show ?thesis using look [of b] nkw that(1) by auto
  qed
  have origin: "\<exists>d\<in>doc_key ` set sem \<union> doc_key ` set kw. fused_doc f = (Num (fst d), Num (snd d))"
    if "f \<in> set ?out" for f
  proof -
    from that obtain entry where e: "entry \<in> set (rrfScores sem kw k)" "f = toFused entry"
      by (auto simp: set_fuseRRF)
    then have "fst entry \<in> key_string ` set sem \<union> key_string ` set kw"
      using set_keys_rrfScores [of sem kw k] by (metis imageI)
    then show ?thesis
    proof
      assume "fst entry \<in> key_string ` set sem"
      then obtain r where "r \<in> set sem" "fst entry = key_string r" by auto
      with nsem e show ?thesis
        by (auto simp: fused_doc_toFused decode_key_string doc_key_def intro!: bexI [of _ "doc_key r"])
    next
      assume "fst entry \<in> key_string ` set kw"
      then obtain r where "r \<in> set kw" "fst entry = key_string r" by auto
      with nkw e show ?thesis
        by (auto simp: fused_doc_toFused decode_key_string doc_key_def intro!: bexI [of _ "doc_key r"])
    qed
  qed
  show ?thesis
  proof (intro conjI ballI impI)
    fix a b assume "a \<in> set sem" "b \<in> set kw" "doc_key a = doc_key b"
    then show "fused_score ?out (doc_key a) = Some (1 / (k + real (rank a)) + 1 / (k + real (rank b)))"
      by (rule both)
  next
    fix a assume "a \<in> set sem" "doc_key a \<notin> doc_key ` set kw"
    then show "fused_score ?out (doc_key a) = Some (1 / (k + real (rank a)))" by (rule only_sem)
  next
    fix b assume "b \<in> set kw" "doc_key b \<notin> doc_key ` set sem"
    then show "fused_score ?out (doc_key b) = Some (1 / (k + real (rank b)))" by (rule only_kw)
  next
    fix f assume "f \<in> set ?out"
    then show "\<exists>d\<in>doc_key ` set sem \<union> doc_key ` set kw. fused_doc f = (Num (fst d), Num (snd d))"
      by (rule origin)
  next
    show "distinct (map fused_doc ?out)" by (rule distinct_fused_docs [OF nsem nkw])
  qed
qed

text \<open>
  The scenario of the specification: \<open>k = 60\<close>, list 1 is A, B and list 2 is B, C, with
  A = (0,0), B = (1,0), C = (2,0).
\<close>

theorem fuseRRF_scores_witness:
  "fused_score
     (fuseRRF
        [\<lparr>postIndex = 0, mediaIndex = 0, rank = 1\<rparr>, \<lparr>postIndex = 1, mediaIndex = 0, rank = 2\<rparr>]
        [\<lparr>postIndex = 1, mediaIndex = 0, rank = 1\<rparr>, \<lparr>postIndex = 2, mediaIndex = 0, rank = 2\<rparr>]
        60) (1, 0) = Some (1 / 62 + 1 / 61)
   \<and> fused_score
     (fuseRRF
        [\<lparr>postIndex = 0, mediaIndex = 0, rank = 1\<rparr>, \<lparr>postIndex = 1, mediaIndex = 0, rank = 2\<rparr>]
        [\<lparr>postIndex = 1, mediaIndex = 0, rank = 1\<rparr>, \<lparr>postIndex = 2, mediaIndex = 0, rank = 2\<rparr>]
        60) (0, 0) = Some (1 / 61)
   \<and> fused_score
     (fuseRRF
        [\<lparr>postIndex = 0, mediaIndex = 0, rank = 1\<rparr>, \<lparr>postIndex = 1, mediaIndex = 0, rank = 2\<rparr>]
        [\<lparr>postIndex = 1, mediaIndex = 0, rank = 1\<rparr>, \<lparr>postIndex = 2, mediaIndex = 0, rank = 2\<rparr>]
        60) (2, 0) = Some (1 / 62)"
  using fuseRRF_scores [of 60
      "[\<lparr>postIndex = 0, mediaIndex = 0, rank = 1\<rparr>, \<lparr>postIndex = 1, mediaIndex = 0, rank = 2\<rparr>]"
      "[\<lparr>postIndex = 1, mediaIndex = 0, rank = 1\<rparr>, \<lparr>postIndex = 2, mediaIndex = 0, rank = 2\<rparr>]"]
  by (simp add: nonneg_key_def doc_key_def)

subsection \<open>Ties and the order of the two lists\<close>

lemma map_of_entry: "distinct (map fst m) \<Longrightarrow> e \<in> set m \<Longrightarrow> map_of m (fst e) = Some (snd e)"
  by (cases e) simp

lemma keys_with_value:
  "distinct (map fst m) \<Longrightarrow>
   map fst (filter (\<lambda>e. snd e = s) m) = filter (\<lambda>key. map_of m key = Some s) (map fst m)"
proof -
  assume d: "distinct (map fst m)"
  have "filter (\<lambda>key. map_of m key = Some s) (map fst m) = map fst (filter (\<lambda>e. map_of m (fst e) = Some s) m)"
    by (simp add: filter_map comp_def)
  also have "filter (\<lambda>e. map_of m (fst e) = Some s) m = filter (\<lambda>e. snd e = s) m"
    by (rule filter_cong) (auto simp: map_of_entry [OF d])
  finally show ?thesis by simp
qed

lemma sort_desc_stable: "filter (\<lambda>y. f y = s) (sort_desc f xs) = filter (\<lambda>y. f y = s) xs"
  using sort_key_stable [of "\<lambda>x. - f x" "- s" xs] by (simp add: sort_desc_def)

text \<open>
  Claim C4, as amended. Documents with equal fused score appear in the output in the order
  in which their keys entered the score map: the order of first appearance in the semantic
  list followed by the keyword list. (The claim as stated, ties in corpus order, fails: see
  the counterexample below.)
\<close>

theorem fuseRRF_ties_insertion_order:
  "map fused_doc (filter (\<lambda>f. rrfScore f = s) (fuseRRF sem kw k)) =
     map decode_key
       (filter (\<lambda>key. map_of (rrfScores sem kw k) key = Some s)
          (first_occurrences (map key_string sem @ map key_string kw)))"
proof -
  let ?E = "rrfScores sem kw k"
  have "filter (\<lambda>f. rrfScore f = s) (fuseRRF sem kw k) = filter (\<lambda>f. rrfScore f = s) (map toFused ?E)"
    by (simp add: fuseRRF_def sort_desc_stable)
  also have "\<dots> = map toFused (filter (\<lambda>e. snd e = s) ?E)"
    by (simp add: filter_map comp_def toFused_def)
  finally have "map fused_doc (filter (\<lambda>f. rrfScore f = s) (fuseRRF sem kw k))
      = map decode_key (map fst (filter (\<lambda>e. snd e = s) ?E))"
    by (simp add: fused_doc_toFused)
  then show ?thesis
    by (simp only: keys_with_value [OF distinct_rrfScores] keys_rrfScores)
qed

text \<open>
  The claim C4 as stated fails. Corpus A = (0,0), B = (1,0); the semantic list ranks B
  first, the keyword list ranks A first. Both fused scores are \<open>1/61 + 1/62\<close>, and the
  output lists B before A, against the corpus order.
\<close>

theorem fuseRRF_ties_counterexample:
  "fuseRRF
     [\<lparr>postIndex = 1, mediaIndex = 0, rank = 1\<rparr>, \<lparr>postIndex = 0, mediaIndex = 0, rank = 2\<rparr>]
     [\<lparr>postIndex = 0, mediaIndex = 0, rank = 1, score = 2\<rparr>,
      \<lparr>postIndex = 1, mediaIndex = 0, rank = 2, score = 1\<rparr>] 60
   = [\<lparr>fusedPostIndex = Num 1, fusedMediaIndex = Num 0, rrfScore = 1 / 61 + 1 / 62\<rparr>,
      \<lparr>fusedPostIndex = Num 0, fusedMediaIndex = Num 0, rrfScore = 1 / 61 + 1 / 62\<rparr>]
   \<and> \<not> ties_in_corpus_order
         [\<lparr>postIndex = 0, mediaIndex = 0\<rparr>, \<lparr>postIndex = 1, mediaIndex = 0\<rparr>]
         (fuseRRF
            [\<lparr>postIndex = 1, mediaIndex = 0, rank = 1\<rparr>, \<lparr>postIndex = 0, mediaIndex = 0, rank = 2\<rparr>]
            [\<lparr>postIndex = 0, mediaIndex = 0, rank = 1, score = 2\<rparr>,
             \<lparr>postIndex = 1, mediaIndex = 0, rank = 2, score = 1\<rparr>] 60)"
  by code_simp

lemma mset_rrfScores_commute: "mset (rrfScores a b k) = mset (rrfScores b a k)"
proof -
  have "map_of (rrfScores a b k) = map_of (rrfScores b a k)"
    by (rule ext) (auto simp: map_of_rrfScores)
  then have "set (rrfScores a b k) = set (rrfScores b a k)"
    using distinct_rrfScores [of a b k] distinct_rrfScores [of b a k]
    by (simp add: map_of_inject_set)
  moreover have "distinct (rrfScores a b k)" "distinct (rrfScores b a k)"
    using distinct_rrfScores [of a b k] distinct_rrfScores [of b a k]
    by (auto simp: distinct_map)
  ultimately show ?thesis by (simp add: set_eq_iff_mset_eq_distinct)
qed

text \<open>
  Claim C5, as amended. Exchanging the two lists leaves the fused documents and their scores
  unchanged, and leaves the whole ranking unchanged when no two documents have the same
  fused score. (The claim as stated fails where scores are equal: see the counterexample
  below.)
\<close>

theorem fuseRRF_commute_up_to_ties:
  "mset (fuseRRF a b k) = mset (fuseRRF b a k)
   \<and> (distinct (map rrfScore (fuseRRF a b k)) \<longrightarrow> fuseRRF a b k = fuseRRF b a k)"
proof
  have "mset (map toFused (rrfScores a b k)) = mset (map toFused (rrfScores b a k))"
    by (rule mset_map_eq) (rule mset_rrfScores_commute)
  then show m: "mset (fuseRRF a b k) = mset (fuseRRF b a k)"
    by (simp only: mset_fuseRRF)
  show "distinct (map rrfScore (fuseRRF a b k)) \<longrightarrow> fuseRRF a b k = fuseRRF b a k"
  proof
    assume d: "distinct (map rrfScore (fuseRRF a b k))"
    let ?xs = "map toFused (rrfScores a b k)"
    let ?f = "\<lambda>x. - rrfScore x"
    have "inj_on rrfScore (set (fuseRRF a b k))" using d by (simp add: distinct_map)
    then have inj: "inj_on ?f (set ?xs)"
      by (auto simp: inj_on_def set_fuseRRF)
    have perm: "mset ?xs = mset (fuseRRF b a k)" using m by (simp only: mset_fuseRRF)
    have srt: "sorted (map ?f (fuseRRF b a k))" by (simp add: fuseRRF_def sort_desc_def)
    have "sort_key ?f ?xs = fuseRRF b a k" by (rule sort_key_inj_key_eq [OF perm inj srt])
    then show "fuseRRF a b k = fuseRRF b a k" by (simp add: fuseRRF_def sort_desc_def)
  qed
qed

text \<open>
  The claim C5 as stated fails. With the lists A, B and B, A both documents have the
  fused score \<open>1/61 + 1/62\<close>; the output is A, B for one order of the lists and B, A
  for the other.
\<close>

theorem fuseRRF_commute_counterexample:
  "map fused_doc
     (fuseRRF
        [\<lparr>postIndex = 0, mediaIndex = 0, rank = 1\<rparr>, \<lparr>postIndex = 1, mediaIndex = 0, rank = 2\<rparr>]
        [\<lparr>postIndex = 1, mediaIndex = 0, rank = 1\<rparr>, \<lparr>postIndex = 0, mediaIndex = 0, rank = 2\<rparr>] 60)
   = [(Num 0, Num 0), (Num 1, Num 0)]
   \<and> map fused_doc
     (fuseRRF
        [\<lparr>postIndex = 1, mediaIndex = 0, rank = 1\<rparr>, \<lparr>postIndex = 0, mediaIndex = 0, rank = 2\<rparr>]
        [\<lparr>postIndex = 0, mediaIndex = 0, rank = 1\<rparr>, \<lparr>postIndex = 1, mediaIndex = 0, rank = 2\<rparr>] 60)
   = [(Num 1, Num 0), (Num 0, Num 0)]"
  by code_simp

text \<open>The scenario of the specification has three distinct fused scores.\<close>

theorem fuseRRF_commute_witness:
  "distinct (map rrfScore
     (fuseRRF
        [\<lparr>postIndex = 0, mediaIndex = 0, rank = 1\<rparr>, \<lparr>postIndex = 1, mediaIndex = 0, rank = 2\<rparr>]
        [\<lparr>postIndex = 1, mediaIndex = 0, rank = 1\<rparr>, \<lparr>postIndex = 2, mediaIndex = 0, rank = 2\<rparr>] 60))
   \<and> fuseRRF
        [\<lparr>postIndex = 0, mediaIndex = 0, rank = 1\<rparr>, \<lparr>postIndex = 1, mediaIndex = 0, rank = 2\<rparr>]
        [\<lparr>postIndex = 1, mediaIndex = 0, rank = 1\<rparr>, \<lparr>postIndex = 2, mediaIndex = 0, rank = 2\<rparr>] 60
     = fuseRRF
        [\<lparr>postIndex = 1, mediaIndex = 0, rank = 1\<rparr>, \<lparr>postIndex = 2, mediaIndex = 0, rank = 2\<rparr>]
        [\<lparr>postIndex = 0, mediaIndex = 0, rank = 1\<rparr>, \<lparr>postIndex = 1, mediaIndex = 0, rank = 2\<rparr>] 60"
proof -
  have d: "distinct (map rrfScore
     (fuseRRF
        [\<lparr>postIndex = 0, mediaIndex = 0, rank = 1\<rparr>, \<lparr>postIndex = 1, mediaIndex = 0, rank = 2\<rparr>]
        [\<lparr>postIndex = 1, mediaIndex = 0, rank = 1\<rparr>, \<lparr>postIndex = 2, mediaIndex = 0, rank = 2\<rparr>] 60))"
    by code_simp
  with fuseRRF_commute_up_to_ties [of
        "[\<lparr>postIndex = 0, mediaIndex = 0, rank = 1\<rparr>, \<lparr>postIndex = 1, mediaIndex = 0, rank = 2\<rparr>]"
        "[\<lparr>postIndex = 1, mediaIndex = 0, rank = 1\<rparr>, \<lparr>postIndex = 2, mediaIndex = 0, rank = 2\<rparr>]" 60]
  show ?thesis by blast
qed

subsection \<open>Closed forms of the two scorers\<close>

lemma indexed_nth: "indexed xs = map (\<lambda>i. (xs ! i, i)) [0 ..< length xs]"
  by (rule nth_equalityI) (simp_all add: indexed_def)

lemma length_indexed: "length (indexed xs) = length xs"
  by (simp add: indexed_def)

lemma indexed_map: "indexed (map f xs) = map (\<lambda>(x, n). (f x, n)) (indexed xs)"
  by (simp add: indexed_def zip_map1)

lemma map_snd_indexed: "map snd (indexed xs) = [0 ..< length xs]"
  by (simp add: indexed_def)

lemma map_fst_indexed: "map fst (indexed xs) = xs"
  by (simp add: indexed_def)

lemma insort_key_map:
  "insort_key f (h x) (map h xs) = map h (insort_key (\<lambda>y. f (h y)) x xs)"
  by (induction xs) auto

lemma sort_key_map: "sort_key f (map h xs) = map h (sort_key (\<lambda>y. f (h y)) xs)"
  by (induction xs) (auto simp: insort_key_map)

lemma sort_desc_map: "sort_desc f (map h xs) = map h (sort_desc (\<lambda>y. f (h y)) xs)"
  by (simp add: sort_desc_def sort_key_map)

lemma set_sort_desc: "set (sort_desc f xs) = set xs"
  by (simp add: sort_desc_def)

lemma length_sort_desc: "length (sort_desc f xs) = length xs"
  by (simp add: sort_desc_def)

lemma distinct_sort_desc: "distinct (sort_desc f xs) = distinct xs"
  by (simp add: sort_desc_def)

lemma mset_sort_desc: "mset (sort_desc f xs) = mset xs"
  by (simp add: sort_desc_def)

lemma sorted_sort_desc: "sorted_wrt (\<lambda>a b. f a \<ge> f b) (sort_desc f xs)"
proof -
  have "sorted (map (\<lambda>x. - f x) (sort_desc f xs))" by (simp add: sort_desc_def)
  then show ?thesis by (simp add: sorted_map)
qed

lemma map_filter_positive:
  "List.map_filter positive_score (map (\<lambda>i. (g i, at_index scores i)) js) =
     map (\<lambda>i. (g i, score_at scores i)) (filter (\<lambda>i. 0 < score_at scores i) js)"
  by (induction js)
     (auto simp: List.map_filter_simps positive_score_def score_at_def at_index_def)

lemma getKeywordRanks_tokens:
  assumes "tokenize query \<noteq> []" "\<not> blank query"
    and "scores = BM25 e (map title corpus) (tokenize query) 1.3 0.9"
  shows "getKeywordRanks e query corpus =
     map (\<lambda>(i, n). \<lparr>postIndex = postIndex (corpus ! i), mediaIndex = mediaIndex (corpus ! i),
                     rank = n + 1, score = score_at scores i\<rparr>)
       (indexed (keyword_order scores corpus))"
proof -
  have 1: "map (\<lambda>(post, index). (post, at_index S index)) (indexed corpus)
      = map (\<lambda>i. (corpus ! i, at_index S i)) [0 ..< length corpus]" for S :: "real list"
    by (simp add: indexed_nth)
  have 2: "sort_desc snd (map (\<lambda>i. (corpus ! i, score_at S i)) js)
      = map (\<lambda>i. (corpus ! i, score_at S i)) (sort_desc (score_at S) js)" for js S
    by (simp add: sort_desc_map)
  show ?thesis
    using assms
    apply (simp add: getKeywordRanks_def Let_def 1 map_filter_positive 2 indexed_map
        keyword_order_def)
    apply (simp add: case_prod_unfold comp_def)
    done
qed

lemma map_throwing_all:
  "\<forall>x\<in>set xs. f x = Inr (g x) \<Longrightarrow> map_throwing f xs = Inr (map g xs)"
  by (induction xs) auto

lemma map_throwing_Inr_all:
  "map_throwing f xs = Inr ys \<Longrightarrow> \<forall>x\<in>set xs. \<exists>y. f x = Inr y"
  by (induction xs arbitrary: ys) (auto split: sum.splits)

lemma map_throwing_fails:
  "x \<in> set xs \<Longrightarrow> f x = Inl err \<Longrightarrow> \<exists>err'. map_throwing f xs = Inl err'"
  by (induction xs) (auto split: sum.splits)

lemma similarity_of_Inr:
  "cosineSimilarity e v (embedding p) = Inr s \<Longrightarrow> similarity_of e v p = Inr s"
  by (simp add: similarity_of_def)

lemma getSemanticRanks_ok:
  assumes "\<not> blank query" "\<not> unset (GOOGLE_GENERATIVE_AI_API_KEY e)" "embed e query = Inr v"
    and sim: "\<forall>p\<in>set corpus. cosineSimilarity e v (embedding p) = Inr (sim p)"
  shows "getSemanticRanks e query corpus =
     (Inr (map (\<lambda>(i, n). \<lparr>postIndex = postIndex (corpus ! i), mediaIndex = mediaIndex (corpus ! i),
                     rank = n + 1\<rparr>)
       (indexed (semantic_order sim corpus))), [query])"
proof -
  have 0: "map_throwing (\<lambda>post. case similarity_of e v post of
                               Inl err \<Rightarrow> Inl err | Inr s \<Rightarrow> Inr (post, s)) corpus
      = Inr (map (\<lambda>post. (post, sim post)) corpus)"
    by (rule map_throwing_all) (simp add: sim similarity_of_Inr)
  have 1: "map (\<lambda>post. (post, sim post)) corpus
      = map (\<lambda>i. (corpus ! i, sim (corpus ! i))) [0 ..< length corpus]"
    by (rule nth_equalityI) simp_all
  show ?thesis
    using assms(1-3)
    by (simp add: getSemanticRanks_def 0 1 sort_desc_map indexed_map
        semantic_order_def case_prod_unfold comp_def)
qed

lemma searchPosts_ok:
  assumes "\<not> blank query" "\<not> unset (GOOGLE_GENERATIVE_AI_API_KEY e)" "embed e query = Inr v"
    "store e = Some corpus"
    and sim: "\<forall>p\<in>set corpus. cosineSimilarity e v (embedding p) = Inr (sim p)"
  shows "searchPosts e query topK =
     (Inr (slice0 (map (\<lambda>i. toSearchResult (corpus ! i) (sim (corpus ! i)))
                  (semantic_order sim corpus)) topK), [query])"
proof -
  have 0: "map_throwing (\<lambda>post. case similarity_of e v post of
                               Inl err \<Rightarrow> Inl err | Inr s \<Rightarrow> Inr (toSearchResult post s)) corpus
      = Inr (map (\<lambda>post. toSearchResult post (sim post)) corpus)"
    by (rule map_throwing_all) (simp add: sim similarity_of_Inr)
  have 1: "map (\<lambda>post. toSearchResult post (sim post)) corpus
      = map (\<lambda>i. toSearchResult (corpus ! i) (sim (corpus ! i))) [0 ..< length corpus]"
    by (rule nth_equalityI) simp_all
  have 2: "similarity (toSearchResult p s) = s" for p s by (simp add: toSearchResult_def)
  show ?thesis
    using assms(1-4)
    by (simp add: searchPosts_def loadEmbeddings_def 0 1 sort_desc_map 2 semantic_order_def)
qed

subsection \<open>Facts about the example\<close>

lemma example_facts:
  "store example_env = Some example_corpus"
  "\<not> unset (GOOGLE_GENERATIVE_AI_API_KEY example_env)"
  "embed example_env q = Inr [1, 0]"
  "\<forall>p\<in>set example_corpus. nonneg_key p"
  "distinct (map doc_key example_corpus)"
  by (simp_all add: example_env_def example_corpus_def unset_def nonneg_key_def doc_key_def)

lemma example_similarities:
  "\<forall>p\<in>set example_corpus.
     cosineSimilarity example_env [1, 0] (embedding p) = Inr (dot [1, 0] (embedding p))"
  by (simp add: example_env_def example_corpus_def example_similarity_def)

lemma not_blank_garden: "\<not> blank (ascii ''garden'')" "\<not> blank (ascii ''zebra'')"
  by code_simp+

lemma garden_not_white:
  "\<exists>c\<in>set (ascii ''garden''). c \<notin> white_space"
  by (simp add: ascii_def white_space_def)

lemma zebra_not_white:
  "\<exists>c\<in>set (ascii ''zebra''). c \<notin> white_space"
  by (simp add: ascii_def white_space_def)

subsection \<open>Empty queries, the semantic mode and the lexical scorer\<close>

lemma blank_iff: "blank query \<longleftrightarrow> (\<forall>c\<in>set query. is_space c)"
proof
  assume "blank query"
  then have "trim query = []" by (auto simp: blank_def trim_def)
  then have all: "\<forall>c\<in>set (dropWhile is_space query). is_space c"
    by (simp add: trim_def dropWhile_eq_Nil_conv)
  have "dropWhile is_space query = []"
  proof (cases "dropWhile is_space query")
    case Nil then show ?thesis .
  next
    case (Cons c cs)
    then have "\<not> is_space c" by (metis hd_dropWhile list.sel(1) list.distinct(1))
    with all Cons show ?thesis by simp
  qed
  then show "\<forall>c\<in>set query. is_space c" by (rule dropWhile_eq_Nil_conv [THEN iffD1])
next
  assume "\<forall>c\<in>set query. is_space c"
  then have d: "dropWhile is_space query = []" by (rule dropWhile_eq_Nil_conv [THEN iffD2])
  have "trim query = []" unfolding trim_def d by simp
  then show "blank query" by (simp add: blank_def)
qed

lemma is_space_white_space: "is_space c \<longleftrightarrow> c \<in> white_space"
  by (auto simp: is_space_def white_space_def)

lemma blank_white_space: "blank query \<longleftrightarrow> set query \<subseteq> white_space"
  by (auto simp: blank_iff is_space_white_space)

lemma not_blank_white_space: "\<exists>c\<in>set query. c \<notin> white_space \<Longrightarrow> \<not> blank query"
  by (auto simp: blank_white_space)

lemma space_not_alnum: "is_space c \<Longrightarrow> u \<in> set (lower_units c) \<Longrightarrow> \<not> is_alnum u"
  by (auto simp: is_space_def is_alnum_def lower_units_def split: if_splits)

lemma split_runs_separators:
  "\<forall>c\<in>set s. \<not> is_alnum c \<Longrightarrow> filter (\<lambda>token. length token > 0) (split_runs [] s) = []"
proof (cases s)
  case Nil then show ?thesis by simp
next
  case (Cons c cs)
  assume a: "\<forall>c\<in>set s. \<not> is_alnum c"
  with Cons have d: "dropWhile (\<lambda>d. \<not> is_alnum d) cs = []" by (simp add: dropWhile_eq_Nil_conv)
  from a Cons show ?thesis by (simp add: d)
qed

lemma blank_tokenize: "blank query \<Longrightarrow> tokenize query = []"
  unfolding tokenize_def
  by (rule split_runs_separators) (auto simp: blank_iff toLowerCase_def space_not_alnum)

lemma getKeywordRanks_no_tokens: "tokenize query = [] \<Longrightarrow> getKeywordRanks e query corpus = []"
  by (simp add: getKeywordRanks_def Let_def)

text \<open>
  Claim C7. For a query that is empty or consists only of white space (the white space and
  line terminators of ECMAScript, ASCII or not, which are the code units that
  \<^verbatim>\<open>String.prototype.trim\<close> strips), and in every environment (also without the credential,
  with a failing provider, or with an unreadable embeddings file), the semantic, the hybrid
  and the keyword mode return the empty list without an error, and the semantic and hybrid
  mode have sent nothing to the embedding provider.
\<close>

theorem empty_query_all_modes:
  assumes "set query \<subseteq> white_space"
  shows "searchPosts e query topK = (Inr [], [])
       \<and> hybridSearch e query topK = (Inr [], [])
       \<and> keywordSearch e query topK = Inr []"
proof -
  have "blank query" using assms by (simp add: blank_white_space)
  then show ?thesis by (simp add: searchPosts_def hybridSearch_def keywordSearch_def)
qed

text \<open>
  A query of a space, a tab, a no-break space, an ideographic space and a byte order mark,
  in an environment with no credential, a failing provider and no embeddings file.
\<close>

theorem empty_query_all_modes_witness:
  "searchPosts
     \<lparr>GOOGLE_GENERATIVE_AI_API_KEY = None, embed = (\<lambda>t. Inl ''unreachable''),
      cosineSimilarity = (\<lambda>a b. Inl ''unreachable''), BM25 = (\<lambda>docs toks k1 b. []),
      store = None\<rparr> [0x20, 0x9, 0xA0, 0x3000, 0xFEFF] 10
     = (Inr [], [])
   \<and> hybridSearch
     \<lparr>GOOGLE_GENERATIVE_AI_API_KEY = None, embed = (\<lambda>t. Inl ''unreachable''),
      cosineSimilarity = (\<lambda>a b. Inl ''unreachable''), BM25 = (\<lambda>docs toks k1 b. []),
      store = None\<rparr> [0x20, 0x9, 0xA0, 0x3000, 0xFEFF] 10
     = (Inr [], [])
   \<and> keywordSearch
     \<lparr>GOOGLE_GENERATIVE_AI_API_KEY = None, embed = (\<lambda>t. Inl ''unreachable''),
      cosineSimilarity = (\<lambda>a b. Inl ''unreachable''), BM25 = (\<lambda>docs toks k1 b. []),
      store = None\<rparr> [0x20, 0x9, 0xA0, 0x3000, 0xFEFF] 10
     = Inr []"
  using empty_query_all_modes [of "[0x20, 0x9, 0xA0, 0x3000, 0xFEFF]"]
  by (simp add: white_space_def)

lemma semantic_order_props:
  "distinct (semantic_order sim corpus)"
  "set (semantic_order sim corpus) = {0 ..< length corpus}"
  "length (semantic_order sim corpus) = length corpus"
  "sorted_wrt (\<lambda>i j. sim (corpus ! i) \<ge> sim (corpus ! j)) (semantic_order sim corpus)"
  by (simp_all add: semantic_order_def distinct_sort_desc set_sort_desc sorted_sort_desc
      length_sort_desc)

lemma keyword_order_props:
  "distinct (keyword_order scores corpus)"
  "set (keyword_order scores corpus) =
     {i. i < length corpus \<and> i < length scores \<and> 0 < scores ! i}"
  "sorted_wrt (\<lambda>i j. scores ! i \<ge> scores ! j) (keyword_order scores corpus)"
proof -
  show "distinct (keyword_order scores corpus)"
    by (simp add: keyword_order_def distinct_sort_desc)
  show s: "set (keyword_order scores corpus) =
     {i. i < length corpus \<and> i < length scores \<and> 0 < scores ! i}"
    by (auto simp: keyword_order_def set_sort_desc score_at_def split: if_splits)
  have "sorted_wrt (\<lambda>i j. score_at scores i \<ge> score_at scores j) (keyword_order scores corpus)"
    by (simp add: keyword_order_def sorted_sort_desc)
  then show "sorted_wrt (\<lambda>i j. scores ! i \<ge> scores ! j) (keyword_order scores corpus)"
    by (rule sorted_wrt_mono_rel [rotated]) (simp add: s score_at_def)
qed

lemma slice0_take: "0 \<le> n \<Longrightarrow> slice0 xs n = take (nat n) xs"
  by (simp add: slice0_def)

text \<open>
  Claim C6. For a query with a code unit that is not white space, with the credential set, the
  store loaded, the embedding call returning \<open>v\<close>, \<^verbatim>\<open>cosineSimilarity\<close> returning a number
  \<open>sim p\<close> for every document \<open>p\<close> and \<open>topK \<ge> 0\<close>: the semantic mode calls the provider
  once, scores every position of the corpus (the ranked positions are a permutation of all
  positions, none is filtered out), orders them descending by their similarity, and returns
  the records of the first \<open>topK\<close> of them, each with its similarity.
\<close>

theorem searchPosts_ranks_whole_corpus:
  assumes "\<exists>c\<in>set query. c \<notin> white_space"
    and "\<not> unset (GOOGLE_GENERATIVE_AI_API_KEY e)" "store e = Some corpus"
    and "embed e query = Inr v"
    and "\<forall>p\<in>set corpus. cosineSimilarity e v (embedding p) = Inr (sim p)"
    and "0 \<le> topK"
  shows "\<exists>is. distinct is \<and> set is = {0 ..< length corpus}
      \<and> sorted_wrt (\<lambda>i j. sim (corpus ! i) \<ge> sim (corpus ! j)) is
      \<and> searchPosts e query topK =
          (Inr (take (nat topK)
                  (map (\<lambda>i. \<lparr>postIndex = postIndex (corpus ! i),
                              mediaIndex = mediaIndex (corpus ! i),
                              title = title (corpus ! i), uri = uri (corpus ! i),
                              isVideo = isVideo (corpus ! i),
                              creationTimestamp = creationTimestamp (corpus ! i),
                              similarity = sim (corpus ! i)\<rparr>) is)),
           [query])"
proof (intro exI [of _ "semantic_order sim corpus"] conjI)
  show "searchPosts e query topK =
          (Inr (take (nat topK)
                  (map (\<lambda>i. \<lparr>postIndex = postIndex (corpus ! i),
                              mediaIndex = mediaIndex (corpus ! i),
                              title = title (corpus ! i), uri = uri (corpus ! i),
                              isVideo = isVideo (corpus ! i),
                              creationTimestamp = creationTimestamp (corpus ! i),
                              similarity = sim (corpus ! i)\<rparr>) (semantic_order sim corpus))),
           [query])"
    using searchPosts_ok [OF not_blank_white_space [OF assms(1)] assms(2,4,3,5), of topK] assms(6)
    by (simp add: slice0_take toSearchResult_def)
qed (simp_all add: semantic_order_props)

text \<open>
  The example: the query \<^verbatim>\<open>garden\<close> is embedded as \<open>[1, 0]\<close>, the first document has the
  similarity 1 and the second 0, and \<open>topK\<close> is 1.
\<close>

theorem searchPosts_ranks_whole_corpus_witness:
  "searchPosts example_env (ascii ''garden'') 1 =
     (Inr [\<lparr>postIndex = 0, mediaIndex = 0, title = ascii ''Lilly digs the garden'',
            uri = ascii ''a.jpg'', isVideo = False, creationTimestamp = 1625097600,
            similarity = 1\<rparr>],
      [ascii ''garden''])
   \<and> (\<exists>is. distinct is \<and> set is = {0 ..< length example_corpus}
      \<and> sorted_wrt (\<lambda>i j. dot [1, 0] (embedding (example_corpus ! i))
                            \<ge> dot [1, 0] (embedding (example_corpus ! j))) is
      \<and> searchPosts example_env (ascii ''garden'') 1 =
          (Inr (take (nat 1)
                  (map (\<lambda>i. \<lparr>postIndex = postIndex (example_corpus ! i),
                              mediaIndex = mediaIndex (example_corpus ! i),
                              title = title (example_corpus ! i), uri = uri (example_corpus ! i),
                              isVideo = isVideo (example_corpus ! i),
                              creationTimestamp = creationTimestamp (example_corpus ! i),
                              similarity = dot [1, 0] (embedding (example_corpus ! i))\<rparr>) is)),
           [ascii ''garden'']))"
proof
  show "searchPosts example_env (ascii ''garden'') 1 =
     (Inr [\<lparr>postIndex = 0, mediaIndex = 0, title = ascii ''Lilly digs the garden'',
            uri = ascii ''a.jpg'', isVideo = False, creationTimestamp = 1625097600,
            similarity = 1\<rparr>],
      [ascii ''garden''])"
    by code_simp
  have "(0::int) \<le> 1" by simp
  from searchPosts_ranks_whole_corpus [OF garden_not_white example_facts(2) example_facts(1)
      example_facts(3) example_similarities this]
  show "\<exists>is. distinct is \<and> set is = {0 ..< length example_corpus}
      \<and> sorted_wrt (\<lambda>i j. dot [1, 0] (embedding (example_corpus ! i))
                            \<ge> dot [1, 0] (embedding (example_corpus ! j))) is
      \<and> searchPosts example_env (ascii ''garden'') 1 =
          (Inr (take (nat 1)
                  (map (\<lambda>i. \<lparr>postIndex = postIndex (example_corpus ! i),
                              mediaIndex = mediaIndex (example_corpus ! i),
                              title = title (example_corpus ! i), uri = uri (example_corpus ! i),
                              isVideo = isVideo (example_corpus ! i),
                              creationTimestamp = creationTimestamp (example_corpus ! i),
                              similarity = dot [1, 0] (embedding (example_corpus ! i))\<rparr>) is)),
           [ascii ''garden''])" .
qed

text \<open>
  Claim C2. Let \<open>scores\<close> be what BM25 returns for the titles of the corpus and the tokens
  of the query, with \<open>k1 = 1.3\<close> and \<open>b = 0.9\<close>. For every query with at least one token
  (and for a query without tokens, if the library gives no positive score for an empty list
  of keywords), the ranked output of the lexical scorer lists exactly the positions of the
  corpus whose score is strictly positive, each once, in descending order of the score, and
  the entry at position \<open>n\<close> of the output has the indices of its document, the rank
  \<open>n + 1\<close> and the score of its document.
\<close>

theorem getKeywordRanks_positive_sorted:
  assumes "scores = BM25 e (map title corpus) (tokenize query) 1.3 0.9"
    and "tokenize query \<noteq> [] \<or> (\<forall>s\<in>set (BM25 e (map title corpus) [] 1.3 0.9). s \<le> 0)"
  shows "\<exists>is. distinct is
      \<and> set is = {i. i < length corpus \<and> i < length scores \<and> 0 < scores ! i}
      \<and> sorted_wrt (\<lambda>i j. scores ! i \<ge> scores ! j) is
      \<and> getKeywordRanks e query corpus =
          map (\<lambda>n. \<lparr>postIndex = postIndex (corpus ! (is ! n)),
                     mediaIndex = mediaIndex (corpus ! (is ! n)),
                     rank = n + 1, score = scores ! (is ! n)\<rparr>)
            [0 ..< length is]"
proof (cases "tokenize query = []")
  case False
  then have nb: "\<not> blank query" using blank_tokenize by blast
  let ?is = "keyword_order scores corpus"
  have "getKeywordRanks e query corpus =
      map (\<lambda>(i, n). \<lparr>postIndex = postIndex (corpus ! i), mediaIndex = mediaIndex (corpus ! i),
                      rank = n + 1, score = score_at scores i\<rparr>) (indexed ?is)"
    using False nb assms(1) by (rule getKeywordRanks_tokens)
  also have "\<dots> = map (\<lambda>n. \<lparr>postIndex = postIndex (corpus ! (?is ! n)),
                     mediaIndex = mediaIndex (corpus ! (?is ! n)),
                     rank = n + 1, score = score_at scores (?is ! n)\<rparr>) [0 ..< length ?is]"
    by (simp add: indexed_nth)
  also have "\<dots> = map (\<lambda>n. \<lparr>postIndex = postIndex (corpus ! (?is ! n)),
                     mediaIndex = mediaIndex (corpus ! (?is ! n)),
                     rank = n + 1, score = scores ! (?is ! n)\<rparr>) [0 ..< length ?is]"
  proof (rule map_cong [OF refl])
    fix n assume "n \<in> set [0 ..< length ?is]"
    then have "?is ! n \<in> set ?is" by simp
    then have "?is ! n < length scores" by (simp add: keyword_order_props(2))
    then show "\<lparr>postIndex = postIndex (corpus ! (?is ! n)),
                     mediaIndex = mediaIndex (corpus ! (?is ! n)),
                     rank = n + 1, score = score_at scores (?is ! n)\<rparr>
        = \<lparr>postIndex = postIndex (corpus ! (?is ! n)),
                     mediaIndex = mediaIndex (corpus ! (?is ! n)),
                     rank = n + 1, score = scores ! (?is ! n)\<rparr>"
      by (simp add: score_at_def)
  qed
  finally show ?thesis
    using keyword_order_props [of scores corpus] by (intro exI [of _ ?is]) simp
next
  case True
  with assms have neg: "\<forall>s\<in>set scores. s \<le> 0" by simp
  have "\<not> 0 < scores ! i" if "i < length scores" for i
    using neg that by (auto simp: not_less)
  then have "{i. i < length corpus \<and> i < length scores \<and> 0 < scores ! i} = {}"
    by auto
  with True show ?thesis
    by (intro exI [of _ "[]"]) (simp add: getKeywordRanks_no_tokens)
qed

text \<open>
  The example: the query \<^verbatim>\<open>Digs, GARDEN!\<close> followed by the Kelvin sign U+212A has the
  tokens \<^verbatim>\<open>digs\<close>, \<^verbatim>\<open>garden\<close> and \<^verbatim>\<open>k\<close>; two of them occur in the first title and none in
  the second, so the scores of the stand-in are 2 and 0.
\<close>

theorem getKeywordRanks_positive_sorted_witness:
  "tokenize (ascii ''Digs, GARDEN!'' @ [0x212A]) = [ascii ''digs'', ascii ''garden'', ascii ''k'']
   \<and> BM25 example_env (map title example_corpus)
         (tokenize (ascii ''Digs, GARDEN!'' @ [0x212A])) 1.3 0.9 = [2, 0]
   \<and> getKeywordRanks example_env (ascii ''Digs, GARDEN!'' @ [0x212A]) example_corpus
       = [\<lparr>postIndex = 0, mediaIndex = 0, rank = 1, score = 2\<rparr>]
   \<and> (\<exists>is. distinct is
      \<and> set is = {i. i < length example_corpus \<and> i < length [2, 0 :: real] \<and> 0 < [2, 0 :: real] ! i}
      \<and> sorted_wrt (\<lambda>i j. [2, 0 :: real] ! i \<ge> [2, 0] ! j) is
      \<and> getKeywordRanks example_env (ascii ''Digs, GARDEN!'' @ [0x212A]) example_corpus =
          map (\<lambda>n. \<lparr>postIndex = postIndex (example_corpus ! (is ! n)),
                     mediaIndex = mediaIndex (example_corpus ! (is ! n)),
                     rank = n + 1, score = [2, 0] ! (is ! n)\<rparr>)
            [0 ..< length is])"
proof -
  have t: "tokenize (ascii ''Digs, GARDEN!'' @ [0x212A])
      = [ascii ''digs'', ascii ''garden'', ascii ''k'']" by code_simp
  then have ne: "tokenize (ascii ''Digs, GARDEN!'' @ [0x212A]) \<noteq> []" by simp
  have s: "[2, 0] = BM25 example_env (map title example_corpus)
      (tokenize (ascii ''Digs, GARDEN!'' @ [0x212A])) 1.3 0.9"
    by code_simp
  have g: "getKeywordRanks example_env (ascii ''Digs, GARDEN!'' @ [0x212A]) example_corpus
       = [\<lparr>postIndex = 0, mediaIndex = 0, rank = 1, score = 2\<rparr>]"
    by code_simp
  from getKeywordRanks_positive_sorted [OF s disjI1 [OF ne]] t s [symmetric] g
  show ?thesis by blast
qed

subsection \<open>The tokens do not depend on the lower-case forms outside \<^verbatim>\<open>[a-z0-9]\<close>\<close>

lemma pieces_dropWhile: "pieces [] (dropWhile (\<lambda>d. \<not> is_alnum d) cs) = pieces [] cs"
  by (induction cs) auto

lemma filter_split_runs:
  "filter (\<lambda>token. length token > 0) (split_runs cur s) = pieces cur s"
  by (induction cur s rule: split_runs.induct) (auto simp: pieces_dropWhile)

lemma pieces_separators:
  "seps \<noteq> [] \<Longrightarrow> list_all (\<lambda>u. \<not> is_alnum u) seps \<Longrightarrow>
   pieces cur (seps @ rest) = (if cur = [] then [] else [cur]) @ pieces [] rest"
proof (induction seps arbitrary: cur)
  case Nil then show ?case by simp
next
  case (Cons u us)
  show ?case
  proof (cases "us = []")
    case True with Cons.prems show ?thesis by simp
  next
    case False
    with Cons.prems have "pieces [] (us @ rest) = pieces [] rest"
      using Cons.IH [of "[]"] by simp
    with Cons.prems show ?thesis by simp
  qed
qed

lemma pieces_append_cong:
  "(\<And>cur. pieces cur r1 = pieces cur r2) \<Longrightarrow> pieces cur (xs @ r1) = pieces cur (xs @ r2)"
  by (induction xs arbitrary: cur) auto

lemma pieces_case_table:
  assumes "case_table lc"
  shows "pieces cur (concat (map lc s)) = pieces cur (concat (map lower_units s))"
proof (induction s arbitrary: cur)
  case Nil show ?case by simp
next
  case (Cons c s)
  show ?case
  proof (cases "lowers_to_alnum c")
    case True
    with assms have eq: "lc c = lower_units c" by (simp add: case_table_def)
    have "pieces cur (lower_units c @ concat (map lc s))
        = pieces cur (lower_units c @ concat (map lower_units s))"
      by (rule pieces_append_cong) (rule Cons.IH)
    then show ?thesis by (simp add: eq)
  next
    case False
    with assms have lc: "lc c \<noteq> []" "list_all (\<lambda>u. \<not> is_alnum u) (lc c)"
      by (simp_all add: case_table_def)
    from False have lu: "lower_units c = [c]" "\<not> is_alnum c"
      by (auto simp: lowers_to_alnum_def lower_units_def)
    have "pieces cur (lc c @ concat (map lc s))
        = (if cur = [] then [] else [cur]) @ pieces [] (concat (map lc s))"
      using lc by (rule pieces_separators)
    with lu Cons.IH [of "[]"] show ?thesis by simp
  qed
qed

lemma tokenize_any_case_table: "case_table lc \<Longrightarrow> tokenize_with lc s = tokenize s"
  unfolding tokenize_with_def tokenize_def toLowerCase_def filter_split_runs
  by (rule pieces_case_table)

subsection \<open>Resolving ranked and fused results in the store\<close>

lemma set_map_set: "set (map_set m key v) \<subseteq> insert (key, v) (set m)"
  by (induction m key v rule: map_set.induct) auto

lemma keys_set_map_set: "fst ` set (map_set m key v) = insert key (fst ` set m)"
proof -
  have "set (map fst (map_set m key v)) = insert key (fst ` set m)"
    unfolding keys_map_set by auto
  then show ?thesis by simp
qed

lemma foldl_map_set_keys:
  "fst ` set (foldl (\<lambda>m (key, v). map_set m key v) m es) = fst ` set m \<union> fst ` set es"
proof (induction es arbitrary: m)
  case Nil show ?case by simp
next
  case (Cons a es)
  obtain key v where a: "a = (key, v)" by (cases a)
  have "fst ` set (foldl (\<lambda>m (key, v). map_set m key v) (map_set m key v) es)
      = fst ` set (map_set m key v) \<union> fst ` set es" by (rule Cons.IH)
  then show ?case unfolding a keys_set_map_set by simp
qed

lemma foldl_map_set_entries:
  "set (foldl (\<lambda>m (key, v). map_set m key v) m es) \<subseteq> set m \<union> set es"
proof (induction es arbitrary: m)
  case Nil show ?case by simp
next
  case (Cons a es)
  obtain key v where a: "a = (key, v)" by (cases a)
  have "set (foldl (\<lambda>m (key, v). map_set m key v) (map_set m key v) es)
      \<subseteq> set (map_set m key v) \<union> set es" by (rule Cons.IH)
  with set_map_set [of m key v] show ?case unfolding a by auto
qed

lemma embeddingMap_lookup:
  assumes "key \<in> key_string ` set corpus"
  shows "\<exists>post\<in>set corpus. map_get (embeddingMap corpus) key = Some post \<and> key_string post = key"
proof -
  let ?es = "map (\<lambda>post. (getKey (postIndex post) (mediaIndex post), post)) corpus"
  have "fst ` set (embeddingMap corpus) = fst ` set ?es"
    using foldl_map_set_keys [of "[]" ?es] by (simp add: embeddingMap_def new_Map_def)
  also have "\<dots> = key_string ` set corpus" by (auto simp: key_string_def image_iff)
  finally have "key \<in> fst ` set (embeddingMap corpus)" using assms by simp
  then obtain post where p: "map_of (embeddingMap corpus) key = Some post"
    by (metis domD dom_map_of_conv_image_fst)
  then have "(key, post) \<in> set (embeddingMap corpus)" by (rule map_of_SomeD)
  then have "(key, post) \<in> set ?es"
    using foldl_map_set_entries [of "[]" ?es] by (auto simp: embeddingMap_def new_Map_def)
  then have "post \<in> set corpus" "key_string post = key" by (auto simp: key_string_def)
  with p show ?thesis by (auto simp: map_get_def)
qed

lemma map_throwing_ok:
  "\<forall>x\<in>set xs. \<exists>y. f x = Inr y \<Longrightarrow> \<exists>ys. map_throwing f xs = Inr ys \<and> length ys = length xs"
  by (induction xs) auto

lemma map_throwing_Inl: "map_throwing f xs = Inl err \<Longrightarrow> \<exists>x\<in>set xs. f x = Inl err"
  by (induction xs) (auto split: sum.splits)

lemma map_throwing_Inr:
  "map_throwing f xs = Inr ys \<Longrightarrow> \<forall>y\<in>set ys. \<exists>x\<in>set xs. f x = Inr y"
  by (induction xs arbitrary: ys) (auto split: sum.splits)

lemma set_slice0: "set (slice0 xs n) \<subseteq> set xs"
  by (auto simp: slice0_def dest: in_set_takeD)

lemma fused_key_in_lists:
  assumes "\<forall>r\<in>set sem. nonneg_key r" "\<forall>r\<in>set kw. nonneg_key r" "f \<in> set (fuseRRF sem kw k)"
  shows "fused_key f \<in> key_string ` set sem \<union> key_string ` set kw"
proof -
  from assms(3) obtain entry where e: "entry \<in> set (rrfScores sem kw k)" "f = toFused entry"
    by (auto simp: set_fuseRRF)
  then have mem: "fst entry \<in> key_string ` set sem \<union> key_string ` set kw"
    using set_keys_rrfScores [of sem kw k] by (metis imageI)
  then obtain p m where r: "fst entry = getKey p m" "0 \<le> p" "0 \<le> m"
    using assms(1,2) by (auto simp: key_string_def nonneg_key_def)
  have "fused_key (toFused (getKey p m, snd entry)) = getKey p m"
    using r(2,3) by (rule fused_key_toFused)
  moreover have "entry = (getKey p m, snd entry)" using r(1) by (cases entry) simp
  ultimately have "fused_key f = fst entry" using e(2) r(1) by simp
  with mem show ?thesis by simp
qed

lemma ranked_positions:
  fixes R :: "nat \<Rightarrow> nat \<Rightarrow> 'a RankedResult_scheme"
  assumes R: "\<And>i n. doc_key (R i n) = doc_key (corpus ! i)" "\<And>i n. rank (R i n) = n + 1"
    and "set is \<subseteq> {0 ..< length corpus}"
  shows "\<forall>r\<in>set (map (\<lambda>(i, n). R i n) (indexed is)).
           (\<exists>p\<in>set corpus. doc_key r = doc_key p) \<and> 1 \<le> rank r"
    and "distinct is \<Longrightarrow> distinct (map doc_key corpus) \<Longrightarrow>
         distinct (map doc_key (map (\<lambda>(i, n). R i n) (indexed is)))"
proof -
  show "\<forall>r\<in>set (map (\<lambda>(i, n). R i n) (indexed is)).
           (\<exists>p\<in>set corpus. doc_key r = doc_key p) \<and> 1 \<le> rank r"
  proof
    fix r assume "r \<in> set (map (\<lambda>(i, n). R i n) (indexed is))"
    then obtain i n where "(i, n) \<in> set (indexed is)" "r = R i n" by auto
    then have "i \<in> set is" by (auto simp: indexed_def dest: set_zip_leftD)
    with assms(3) have "i < length corpus" by auto
    then have "corpus ! i \<in> set corpus" by simp
    with \<open>r = R i n\<close> R show "(\<exists>p\<in>set corpus. doc_key r = doc_key p) \<and> 1 \<le> rank r" by auto
  qed
  assume d: "distinct is" and dc: "distinct (map doc_key corpus)"
  have "map doc_key (map (\<lambda>(i, n). R i n) (indexed is)) = map (\<lambda>i. doc_key (corpus ! i)) (map fst (indexed is))"
    by (simp add: R case_prod_unfold)
  also have "\<dots> = map (\<lambda>i. doc_key (corpus ! i)) is" by (simp only: map_fst_indexed)
  finally have eq: "map doc_key (map (\<lambda>(i, n). R i n) (indexed is)) = map (\<lambda>i. doc_key (corpus ! i)) is" .
  have "inj_on (\<lambda>i. doc_key (corpus ! i)) (set is)"
  proof (rule inj_onI)
    fix i j assume "i \<in> set is" "j \<in> set is" "doc_key (corpus ! i) = doc_key (corpus ! j)"
    with assms(3) have ij: "i < length corpus" "j < length corpus"
      and "doc_key (corpus ! i) = doc_key (corpus ! j)" by auto
    with nth_eq_iff_index_eq [OF dc, of i j] show "i = j" by simp
  qed
  with d show "distinct (map doc_key (map (\<lambda>(i, n). R i n) (indexed is)))"
    unfolding eq by (rule distinct_map_inj_on)
qed

lemma getKeywordRanks_ranked:
  "\<forall>r\<in>set (getKeywordRanks e query corpus). (\<exists>p\<in>set corpus. doc_key r = doc_key p) \<and> 1 \<le> rank r"
  "distinct (map doc_key corpus) \<Longrightarrow> distinct (map doc_key (getKeywordRanks e query corpus))"
proof -
  define scores where "scores = BM25 e (map title corpus) (tokenize query) 1.3 0.9"
  let ?R = "\<lambda>i n. \<lparr>postIndex = postIndex (corpus ! i), mediaIndex = mediaIndex (corpus ! i),
                     rank = n + 1, score = score_at scores i\<rparr>"
  have R: "\<And>i n. doc_key (?R i n) = doc_key (corpus ! i)" "\<And>i n. rank (?R i n) = n + 1"
    by (simp_all add: doc_key_def)
  have sub: "set (keyword_order scores corpus) \<subseteq> {0 ..< length corpus}"
    by (auto simp: keyword_order_props)
  have form: "getKeywordRanks e query corpus = [] \<or>
      getKeywordRanks e query corpus = map (\<lambda>(i, n). ?R i n) (indexed (keyword_order scores corpus))"
  proof (cases "tokenize query = []")
    case True then show ?thesis by (simp add: getKeywordRanks_no_tokens)
  next
    case False
    then have "\<not> blank query" using blank_tokenize by blast
    with False show ?thesis using getKeywordRanks_tokens [OF _ _ scores_def] by blast
  qed
  show "\<forall>r\<in>set (getKeywordRanks e query corpus). (\<exists>p\<in>set corpus. doc_key r = doc_key p) \<and> 1 \<le> rank r"
    using form ranked_positions(1) [of ?R corpus, OF R sub] by auto
  show "distinct (map doc_key (getKeywordRanks e query corpus))" if "distinct (map doc_key corpus)"
    using form ranked_positions(2) [of ?R corpus, OF R sub keyword_order_props(1) that] by auto
qed

lemma getSemanticRanks_Inr:
  assumes "getSemanticRanks e query corpus = (Inr sem, calls)" "\<not> blank query"
  shows "\<exists>v sim. \<not> unset (GOOGLE_GENERATIVE_AI_API_KEY e) \<and> embed e query = Inr v
      \<and> (\<forall>p\<in>set corpus. cosineSimilarity e v (embedding p) = Inr (sim p))"
proof -
  from assms have k: "\<not> unset (GOOGLE_GENERATIVE_AI_API_KEY e)"
    by (auto simp: getSemanticRanks_def split: if_splits)
  with assms obtain v where v: "embed e query = Inr v"
    by (cases "embed e query") (auto simp: getSemanticRanks_def)
  let ?F = "\<lambda>post. case similarity_of e v post of
                     Inl err \<Rightarrow> Inl err | Inr s \<Rightarrow> Inr (post, s)"
  from assms k v obtain rws where "map_throwing ?F corpus = Inr rws"
    by (cases "map_throwing ?F corpus") (auto simp: getSemanticRanks_def)
  then have all: "\<forall>p\<in>set corpus. \<exists>y. ?F p = Inr y" by (rule map_throwing_Inr_all)
  define sim :: "PostEmbedding \<Rightarrow> real" where
    "sim = (\<lambda>p. case cosineSimilarity e v (embedding p) of Inr s \<Rightarrow> s | Inl msg \<Rightarrow> 0)"
  have "\<forall>p\<in>set corpus. cosineSimilarity e v (embedding p) = Inr (sim p)"
  proof
    fix p assume "p \<in> set corpus"
    with all have "\<exists>y. ?F p = Inr y" by (rule bspec)
    then show "cosineSimilarity e v (embedding p) = Inr (sim p)"
      by (cases "cosineSimilarity e v (embedding p)") (auto simp: similarity_of_def sim_def)
  qed
  with k v show ?thesis by (intro exI [of _ v] exI [of _ sim]) simp
qed

lemma getSemanticRanks_ranked:
  assumes "getSemanticRanks e query corpus = (Inr sem, calls)"
  shows "\<forall>r\<in>set sem. (\<exists>p\<in>set corpus. doc_key r = doc_key p) \<and> 1 \<le> rank r"
    and "distinct (map doc_key corpus) \<Longrightarrow> distinct (map doc_key sem)"
proof -
  let ?R = "\<lambda>i n. \<lparr>postIndex = postIndex (corpus ! i), mediaIndex = mediaIndex (corpus ! i),
                     rank = n + 1\<rparr>"
  have R: "\<And>i n. doc_key (?R i n) = doc_key (corpus ! i)" "\<And>i n. rank (?R i n) = n + 1"
    by (simp_all add: doc_key_def)
  have form: "sem = [] \<or> (\<exists>sim. sem = map (\<lambda>(i, n). ?R i n) (indexed (semantic_order sim corpus)))"
  proof (cases "blank query")
    case True with assms show ?thesis by (simp add: getSemanticRanks_def)
  next
    case False
    from getSemanticRanks_Inr [OF assms False] obtain v sim
      where k: "\<not> unset (GOOGLE_GENERATIVE_AI_API_KEY e)" and v: "embed e query = Inr v"
        and sim: "\<forall>p\<in>set corpus. cosineSimilarity e v (embedding p) = Inr (sim p)"
      by blast
    from getSemanticRanks_ok [OF False k v sim] assms show ?thesis by auto
  qed
  have sub: "set (semantic_order sim corpus) \<subseteq> {0 ..< length corpus}" for sim
    by (simp add: semantic_order_props)
  show "\<forall>r\<in>set sem. (\<exists>p\<in>set corpus. doc_key r = doc_key p) \<and> 1 \<le> rank r"
    using form
  proof (elim disjE exE)
    assume "sem = []" then show ?thesis by simp
  next
    fix sim assume "sem = map (\<lambda>(i, n). ?R i n) (indexed (semantic_order sim corpus))"
    then show ?thesis using ranked_positions(1) [of ?R corpus, OF R sub [of sim]] by simp
  qed
  show "distinct (map doc_key sem)" if "distinct (map doc_key corpus)"
    using form
  proof (elim disjE exE)
    assume "sem = []" then show ?thesis by simp
  next
    fix sim assume "sem = map (\<lambda>(i, n). ?R i n) (indexed (semantic_order sim corpus))"
    then show ?thesis
      using ranked_positions(2) [of ?R corpus, OF R sub [of sim] semantic_order_props(1) that]
      by simp
  qed
qed

lemma nonneg_key_cong: "doc_key r = doc_key p \<Longrightarrow> nonneg_key p \<Longrightarrow> nonneg_key r"
  by (simp add: doc_key_def nonneg_key_def)

lemma key_string_cong: "doc_key r = doc_key p \<Longrightarrow> key_string r = key_string p"
  by (simp add: doc_key_def key_string_def)

lemma resolve_fused_ok:
  assumes corpus: "\<forall>p\<in>set corpus. nonneg_key p"
    and sem: "\<forall>r\<in>set sem. \<exists>p\<in>set corpus. doc_key r = doc_key p"
    and kw: "\<forall>r\<in>set kw. \<exists>p\<in>set corpus. doc_key r = doc_key p"
    and f: "f \<in> set (fuseRRF sem kw k)"
  shows "\<exists>post\<in>set corpus. resolve_fused (embeddingMap corpus) f = Inr (toSearchResult post (rrfScore f))"
proof -
  have n1: "\<forall>r\<in>set sem. nonneg_key r" using sem corpus by (metis nonneg_key_cong)
  have n2: "\<forall>r\<in>set kw. nonneg_key r" using kw corpus by (metis nonneg_key_cong)
  have "fused_key f \<in> key_string ` set sem \<union> key_string ` set kw"
    using n1 n2 f by (rule fused_key_in_lists)
  then have "fused_key f \<in> key_string ` set corpus"
    using sem kw by (auto simp: image_iff) (metis key_string_cong)+
  from embeddingMap_lookup [OF this] show ?thesis
    by (auto simp: resolve_fused_def Let_def)
qed

lemma resolve_ranked_ok:
  assumes "\<exists>p\<in>set corpus. doc_key r = doc_key p"
  shows "\<exists>post\<in>set corpus. resolve_ranked (embeddingMap corpus) r = Inr (toSearchResult post (score r))"
proof -
  have "key_string r \<in> key_string ` set corpus"
    using assms by (auto simp: image_iff) (metis key_string_cong)
  from embeddingMap_lookup [OF this] show ?thesis
    by (auto simp: resolve_ranked_def Let_def key_string_def)
qed

subsection \<open>The hybrid mode\<close>

lemma similarity_toSearchResult: "similarity (toSearchResult post s) = s"
  by (simp add: toSearchResult_def)

lemma hybridSearch_loaded:
  assumes "\<not> blank query" "store e = Some corpus"
  shows "hybridSearch e query topK =
     (case getSemanticRanks e query corpus of
        (Inl err, calls) \<Rightarrow> (Inl err, calls)
      | (Inr sem, calls) \<Rightarrow>
          (map_throwing (resolve_fused (embeddingMap corpus))
             (slice0 (fuseRRF sem (getKeywordRanks e query corpus) 60) topK), calls))"
  using assms
  by (simp add: hybridSearch_def loadEmbeddings_def Let_def split: prod.splits sum.splits)

lemma keywordSearch_loaded:
  assumes "\<not> blank query" "store e = Some corpus"
  shows "keywordSearch e query topK =
     map_throwing (resolve_ranked (embeddingMap corpus))
       (slice0 (getKeywordRanks e query corpus) topK)"
  using assms by (simp add: keywordSearch_def loadEmbeddings_def Let_def)

lemma similarity_error:
  assumes "map_throwing (\<lambda>post. case similarity_of e v post of
                                    Inl err \<Rightarrow> Inl err | Inr s \<Rightarrow> Inr (g post s)) corpus = Inl err"
  shows "\<exists>msg. err = SimilarityError msg"
proof -
  from map_throwing_Inl [OF assms] obtain p
    where "(case similarity_of e v p of Inl err \<Rightarrow> Inl err | Inr s \<Rightarrow> Inr (g p s)) = Inl err"
    by blast
  then show ?thesis
    by (cases "cosineSimilarity e v (embedding p)") (auto simp: similarity_of_def)
qed

lemma getSemanticRanks_error:
  assumes "getSemanticRanks e query corpus = (Inl err, calls)"
  shows "err = ConfigurationError \<or> (\<exists>msg. err = EmbeddingProviderError msg)
       \<or> (\<exists>msg. err = SimilarityError msg)"
proof (cases "embed e query")
  case (Inl msg)
  with assms show ?thesis by (auto simp: getSemanticRanks_def split: if_splits)
next
  case (Inr v)
  let ?F = "\<lambda>post. case similarity_of e v post of
                     Inl err \<Rightarrow> Inl err | Inr s \<Rightarrow> Inr (post, s)"
  show ?thesis
  proof (cases "map_throwing ?F corpus")
    case (Inl err')
    from similarity_error [OF Inl] obtain msg where "err' = SimilarityError msg" by blast
    with assms Inr Inl show ?thesis by (auto simp: getSemanticRanks_def split: if_splits)
  next
    case (Inr rws)
    with assms \<open>embed e query = Inr v\<close> show ?thesis
      by (auto simp: getSemanticRanks_def split: if_splits)
  qed
qed

text \<open>
  Claim C9. When the store is loaded and every document has non-negative indices, neither
  the hybrid nor the keyword mode fails with \<open>Post not found\<close>, for any query and any
  \<open>topK\<close>; and the key of every document decodes, by splitting at the hyphen and parsing
  the two pieces, to the two indices it was built from.
\<close>

theorem post_not_found_unreachable:
  assumes store: "store e = Some corpus"
    and nonneg: "\<forall>p\<in>set corpus. nonneg_key p"
  shows "(\<forall>key. fst (hybridSearch e query topK) \<noteq> Inl (PostNotFound key))
       \<and> (\<forall>key. keywordSearch e query topK \<noteq> Inl (PostNotFound key))
       \<and> (\<forall>p\<in>set corpus.
             decode_key (getKey (postIndex p) (mediaIndex p)) = (Num (postIndex p), Num (mediaIndex p)))"
proof (intro conjI allI ballI)
  fix key
  show "fst (hybridSearch e query topK) \<noteq> Inl (PostNotFound key)"
  proof (cases "blank query")
    case True then show ?thesis by (simp add: hybridSearch_def)
  next
    case False
    obtain res calls where sr: "getSemanticRanks e query corpus = (res, calls)"
      by (cases "getSemanticRanks e query corpus")
    show ?thesis
    proof (cases res)
      case (Inl err)
      have "err \<noteq> PostNotFound key"
        using sr Inl by (auto dest: getSemanticRanks_error)
      with sr Inl show ?thesis by (simp add: hybridSearch_loaded [OF False store])
    next
      case (Inr sem)
      let ?kw = "getKeywordRanks e query corpus"
      have s: "\<forall>r\<in>set sem. \<exists>p\<in>set corpus. doc_key r = doc_key p"
        using getSemanticRanks_ranked(1) [of e query corpus sem calls] sr Inr by blast
      have k: "\<forall>r\<in>set ?kw. \<exists>p\<in>set corpus. doc_key r = doc_key p"
        using getKeywordRanks_ranked(1) [of e query corpus] by blast
      have "\<forall>f\<in>set (slice0 (fuseRRF sem ?kw 60) topK).
              \<exists>y. resolve_fused (embeddingMap corpus) f = Inr y"
        using resolve_fused_ok [OF nonneg s k] set_slice0 [of "fuseRRF sem ?kw 60" topK] by blast
      then obtain rs where "map_throwing (resolve_fused (embeddingMap corpus))
          (slice0 (fuseRRF sem ?kw 60) topK) = Inr rs"
        using map_throwing_ok by blast
      with sr Inr show ?thesis by (simp add: hybridSearch_loaded [OF False store])
    qed
  qed
next
  fix key
  show "keywordSearch e query topK \<noteq> Inl (PostNotFound key)"
  proof (cases "blank query")
    case True then show ?thesis by (simp add: keywordSearch_def)
  next
    case False
    let ?kw = "getKeywordRanks e query corpus"
    have "\<forall>r\<in>set (slice0 ?kw topK). \<exists>y. resolve_ranked (embeddingMap corpus) r = Inr y"
      using getKeywordRanks_ranked(1) [of e query corpus] resolve_ranked_ok [of corpus]
        set_slice0 [of ?kw topK] by blast
    then obtain rs where "map_throwing (resolve_ranked (embeddingMap corpus)) (slice0 ?kw topK) = Inr rs"
      using map_throwing_ok by blast
    then show ?thesis by (simp add: keywordSearch_loaded [OF False store])
  qed
next
  fix p assume "p \<in> set corpus"
  with nonneg show "decode_key (getKey (postIndex p) (mediaIndex p)) = (Num (postIndex p), Num (mediaIndex p))"
    by (simp add: nonneg_key_def decode_key_getKey)
qed

theorem post_not_found_unreachable_witness:
  "fst (hybridSearch example_env (ascii ''garden'') 10) \<noteq> Inl (PostNotFound ''0-0'')
   \<and> keywordSearch example_env (ascii ''garden'') 10 \<noteq> Inl (PostNotFound ''0-0'')
   \<and> decode_key (getKey 0 0) = (Num 0, Num 0)
   \<and> decode_key (getKey 1 0) = (Num 1, Num 0)"
  using post_not_found_unreachable [OF example_facts(1) example_facts(4), of "ascii ''garden''" 10]
  by (simp add: example_corpus_def)

lemma contribution_bounds:
  assumes k: "0 \<le> k" and ranks: "\<forall>r\<in>set xs. 1 \<le> rank r"
    and d: "distinct (map key_string xs)"
  shows "0 \<le> contribution k xs key" "contribution k xs key \<le> 1 / (k + 1)"
    "key \<in> key_string ` set xs \<Longrightarrow> 0 < contribution k xs key"
proof -
  have pos: "0 < contribution k xs key \<and> contribution k xs key \<le> 1 / (k + 1)"
    if "key \<in> key_string ` set xs"
  proof -
    from that obtain r where r: "r \<in> set xs" "key = key_string r" by auto
    have c: "contribution k xs key = 1 / (k + real (rank r))"
      unfolding r(2) using d r(1) by (rule contribution_present)
    have "1 \<le> real (rank r)" using ranks r(1) by (simp add: Suc_le_eq)
    with k have "0 < k + real (rank r)" "k + 1 \<le> k + real (rank r)" "0 < k + 1" by simp_all
    then have "0 < 1 / (k + real (rank r))" "1 / (k + real (rank r)) \<le> 1 / (k + 1)"
      by (simp_all add: frac_le)
    with c show ?thesis by simp
  qed
  have zero: "contribution k xs key = 0" if "key \<notin> key_string ` set xs"
    using that by (rule contribution_absent)
  show "0 \<le> contribution k xs key" using pos zero by (cases "key \<in> key_string ` set xs") auto
  show "contribution k xs key \<le> 1 / (k + 1)"
    using pos zero k by (cases "key \<in> key_string ` set xs") auto
  show "key \<in> key_string ` set xs \<Longrightarrow> 0 < contribution k xs key" using pos by simp
qed

lemma rrfScore_bounds:
  assumes k: "0 \<le> k"
    and sem: "\<forall>r\<in>set sem. 1 \<le> rank r" "distinct (map key_string sem)"
    and kw: "\<forall>r\<in>set kw. 1 \<le> rank r" "distinct (map key_string kw)"
    and f: "f \<in> set (fuseRRF sem kw k)"
  shows "0 < rrfScore f \<and> rrfScore f \<le> 2 / (k + 1)"
proof -
  from f obtain entry where e: "entry \<in> set (rrfScores sem kw k)" "f = toFused entry"
    by (auto simp: set_fuseRRF)
  let ?key = "fst entry"
  have "map_of (rrfScores sem kw k) ?key = Some (snd entry)"
    using distinct_rrfScores e(1) by (rule map_of_entry)
  then have mem: "?key \<in> key_string ` set sem \<union> key_string ` set kw"
    and val: "snd entry = contribution k sem ?key + contribution k kw ?key"
    by (auto simp: map_of_rrfScores split: if_splits)
  note bs = contribution_bounds [OF k sem, of ?key]
  note bk = contribution_bounds [OF k kw, of ?key]
  have "0 < contribution k sem ?key + contribution k kw ?key"
    using mem bs(1,3) bk(1,3) by (auto intro: add_pos_nonneg add_nonneg_pos)
  moreover have "contribution k sem ?key + contribution k kw ?key \<le> 1 / (k + 1) + 1 / (k + 1)"
    using bs(2) bk(2) by (rule add_mono)
  ultimately show ?thesis using e(2) val by (simp add: toFused_def)
qed

text \<open>
  Claim C10. When the keys of the corpus are pairwise distinct, every \<open>similarity\<close> in a
  result of the hybrid mode is strictly positive and at most \<open>2/61\<close>.
\<close>

theorem hybrid_similarity_range:
  assumes store: "store e = Some corpus"
    and d: "distinct (map doc_key corpus)"
    and ok: "fst (hybridSearch e query topK) = Inr rs"
  shows "\<forall>r\<in>set rs. 0 < similarity r \<and> similarity r \<le> 2 / 61"
proof (cases "blank query")
  case True
  with ok show ?thesis by (simp add: hybridSearch_def)
next
  case False
  obtain res calls where sr: "getSemanticRanks e query corpus = (res, calls)"
    by (cases "getSemanticRanks e query corpus")
  from ok sr obtain sem where sem: "res = Inr sem"
    by (cases res) (auto simp: hybridSearch_loaded [OF False store])
  let ?kw = "getKeywordRanks e query corpus"
  let ?fused = "fuseRRF sem ?kw 60"
  have rs: "map_throwing (resolve_fused (embeddingMap corpus)) (slice0 ?fused topK) = Inr rs"
    using ok sr sem by (simp add: hybridSearch_loaded [OF False store])
  have s1: "\<forall>r\<in>set sem. 1 \<le> rank r"
    using getSemanticRanks_ranked(1) [of e query corpus sem calls] sr sem by blast
  have s2: "distinct (map key_string sem)"
    using getSemanticRanks_ranked(2) [of e query corpus sem calls] sr sem d
    by (intro distinct_key_string) simp
  have k1: "\<forall>r\<in>set ?kw. 1 \<le> rank r"
    using getKeywordRanks_ranked(1) [of e query corpus] by blast
  have k2: "distinct (map key_string ?kw)"
    using getKeywordRanks_ranked(2) [OF d] by (rule distinct_key_string)
  show ?thesis
  proof
    fix r assume "r \<in> set rs"
    with map_throwing_Inr [OF rs]
    have "\<exists>f\<in>set (slice0 ?fused topK). resolve_fused (embeddingMap corpus) f = Inr r"
      by (rule bspec)
    then obtain f where f: "f \<in> set (slice0 ?fused topK)"
      "resolve_fused (embeddingMap corpus) f = Inr r" by (elim bexE)
    from f(1) have ff: "f \<in> set ?fused" by (rule subsetD [OF set_slice0])
    have k60: "(0::real) \<le> 60" by simp
    from k60 s1 s2 k1 k2 ff have "0 < rrfScore f \<and> rrfScore f \<le> 2 / (60 + 1)"
      by (rule rrfScore_bounds)
    moreover have "similarity r = rrfScore f"
      using f(2) by (auto simp: resolve_fused_def Let_def similarity_toSearchResult split: option.splits)
    ultimately show "0 < similarity r \<and> similarity r \<le> 2 / 61" by simp
  qed
qed

theorem hybrid_similarity_range_witness:
  "fst (hybridSearch example_env (ascii ''garden'') 10) =
     Inr [toSearchResult (example_corpus ! 0) (2 / 61), toSearchResult (example_corpus ! 1) (1 / 62)]
   \<and> 0 < similarity (toSearchResult (example_corpus ! 0) (2 / 61))
   \<and> similarity (toSearchResult (example_corpus ! 0) (2 / 61)) \<le> 2 / 61
   \<and> 0 < similarity (toSearchResult (example_corpus ! 1) (1 / 62))
   \<and> similarity (toSearchResult (example_corpus ! 1) (1 / 62)) \<le> 2 / 61"
proof -
  have h: "fst (hybridSearch example_env (ascii ''garden'') 10) =
     Inr [toSearchResult (example_corpus ! 0) (2 / 61), toSearchResult (example_corpus ! 1) (1 / 62)]"
    by code_simp
  from hybrid_similarity_range [OF example_facts(1) example_facts(5) h]
  have "\<forall>r\<in>set [toSearchResult (example_corpus ! 0) (2 / 61),
                  toSearchResult (example_corpus ! 1) (1 / 62)].
          0 < similarity r \<and> similarity r \<le> 2 / 61" .
  with h show ?thesis by simp
qed

lemma map_set_new: "key \<notin> fst ` set m \<Longrightarrow> map_set m key v = m @ [(key, v)]"
  by (induction m key v rule: map_set.induct) auto

lemma add_contribution_new:
  "key_string r \<notin> fst ` set m \<Longrightarrow>
   add_contribution k m r = m @ [(key_string r, 1 / (k + real (rank r)))]"
proof -
  assume a: "key_string r \<notin> fst ` set m"
  then have "map_of m (key_string r) = None" by (simp add: map_of_eq_None_iff)
  with a show ?thesis
    by (simp add: add_contribution_def Let_def map_get_def map_set_new key_string_def)
qed

lemma foldl_add_distinct:
  "distinct (map key_string xs) \<Longrightarrow> key_string ` set xs \<inter> fst ` set m = {} \<Longrightarrow>
   foldl (add_contribution k) m xs = m @ map (\<lambda>r. (key_string r, 1 / (k + real (rank r)))) xs"
proof (induction xs arbitrary: m)
  case Nil show ?case by simp
next
  case (Cons x xs)
  from Cons.prems have new: "key_string x \<notin> fst ` set m" by auto
  let ?m' = "m @ [(key_string x, 1 / (k + real (rank x)))]"
  have "distinct (map key_string xs)" using Cons.prems by simp
  moreover have "key_string ` set xs \<inter> fst ` set ?m' = {}" using Cons.prems by auto
  ultimately have "foldl (add_contribution k) ?m' xs
      = ?m' @ map (\<lambda>r. (key_string r, 1 / (k + real (rank r)))) xs" by (rule Cons.IH)
  then show ?case by (simp add: add_contribution_new [OF new])
qed

lemma rrfScores_first_only:
  "distinct (map key_string sem) \<Longrightarrow>
   rrfScores sem [] k = map (\<lambda>r. (key_string r, 1 / (k + real (rank r)))) sem"
  using foldl_add_distinct [of sem "[]" k] by (simp add: rrfScores_def)

lemma toFused_nonneg:
  "nonneg_key r \<Longrightarrow> toFused (key_string r, s)
     = \<lparr>fusedPostIndex = Num (postIndex r), fusedMediaIndex = Num (mediaIndex r), rrfScore = s\<rparr>"
  by (simp add: toFused_def decode_key_string)

lemma sorted_reciprocal_ranks:
  assumes "0 \<le> k"
  shows "sorted (map (\<lambda>n. - (1 / (k + real (n + 1)))) [0 ..< N])"
proof -
  have "sorted_wrt (\<lambda>x y. - (1 / (k + real (x + 1))) \<le> - (1 / (k + real (y + 1)))) [0 ..< N]"
  proof (rule sorted_wrt_mono_rel [OF _ sorted_wrt_upt])
    fix x y :: nat assume "x < y"
    then have "k + real (x + 1) \<le> k + real (y + 1)" by simp
    moreover have "0 < k + real (x + 1)" using assms by simp
    ultimately have "1 / (k + real (y + 1)) \<le> 1 / (k + real (x + 1))"
      by (simp add: frac_le)
    then show "- (1 / (k + real (x + 1))) \<le> - (1 / (k + real (y + 1)))" by simp
  qed
  then show ?thesis by (simp add: sorted_map)
qed

text \<open>The fusion of a semantic list over all positions with an empty keyword list.\<close>

lemma fuseRRF_first_only:
  fixes D :: "nat \<Rightarrow> PostEmbedding"
  assumes k: "0 \<le> k"
    and nonneg: "\<forall>n<N. nonneg_key (D n)"
    and d: "distinct (map (\<lambda>n. key_string (D n)) [0 ..< N])"
  shows "fuseRRF
           (map (\<lambda>n. \<lparr>postIndex = postIndex (D n), mediaIndex = mediaIndex (D n), rank = n + 1\<rparr>)
              [0 ..< N])
           ([] :: KeywordSearchResult list) k
         = map (\<lambda>n. \<lparr>fusedPostIndex = Num (postIndex (D n)),
                       fusedMediaIndex = Num (mediaIndex (D n)),
                       rrfScore = 1 / (k + real (n + 1))\<rparr>) [0 ..< N]"
proof -
  let ?R = "\<lambda>n. \<lparr>postIndex = postIndex (D n), mediaIndex = mediaIndex (D n), rank = n + 1\<rparr>"
  let ?sem = "map ?R [0 ..< N]"
  let ?G = "\<lambda>n. \<lparr>fusedPostIndex = Num (postIndex (D n)),
                       fusedMediaIndex = Num (mediaIndex (D n)),
                       rrfScore = 1 / (k + real (n + 1))\<rparr>"
  have ks: "key_string \<lparr>postIndex = postIndex (D n), mediaIndex = mediaIndex (D n), rank = r\<rparr>
      = key_string (D n)" for n r by (simp add: key_string_def)
  have nn: "nonneg_key (?R n)" if "n < N" for n
    using nonneg that by (simp add: nonneg_key_def)
  have "distinct (map key_string ?sem)" using d by (simp add: comp_def ks)
  then have "rrfScores ?sem ([] :: KeywordSearchResult list) k
      = map (\<lambda>r. (key_string r, 1 / (k + real (rank r)))) ?sem"
    by (rule rrfScores_first_only)
  then have "map toFused (rrfScores ?sem ([] :: KeywordSearchResult list) k)
      = map (\<lambda>n. toFused (key_string (?R n), 1 / (k + real (n + 1)))) [0 ..< N]"
    by (simp add: comp_def)
  also have "\<dots> = map ?G [0 ..< N]"
  proof (rule map_cong [OF refl])
    fix n assume "n \<in> set [0 ..< N]"
    then have "n < N" by simp
    from toFused_nonneg [OF nn [OF this]] show
      "toFused (key_string (?R n), 1 / (k + real (n + 1))) = ?G n" by simp
  qed
  finally have m: "map toFused (rrfScores ?sem ([] :: KeywordSearchResult list) k) = map ?G [0 ..< N]" .
  have "sorted (map (\<lambda>x. - rrfScore x) (map ?G [0 ..< N]))"
    using sorted_reciprocal_ranks [OF k, of N] by (simp add: comp_def)
  then have "sort_key (\<lambda>x. - rrfScore x) (map ?G [0 ..< N]) = map ?G [0 ..< N]"
    by (rule sort_key_id_if_sorted)
  then show ?thesis by (simp only: fuseRRF_def sort_desc_def m)
qed

lemma embeddingMap_lookup_nth:
  assumes d: "distinct (map key_string corpus)" and i: "i < length corpus"
  shows "map_get (embeddingMap corpus) (key_string (corpus ! i)) = Some (corpus ! i)"
proof -
  have "key_string (corpus ! i) \<in> key_string ` set corpus" using i by simp
  from embeddingMap_lookup [OF this] obtain post where post: "post \<in> set corpus"
    "map_get (embeddingMap corpus) (key_string (corpus ! i)) = Some post"
    "key_string post = key_string (corpus ! i)" by blast
  have "inj_on key_string (set corpus)" using d by (simp add: distinct_map)
  with post(1,3) i have "post = corpus ! i" by (auto dest: inj_onD)
  with post(2) show ?thesis by simp
qed

lemma fused_key_Num:
  "0 \<le> postIndex p \<Longrightarrow> 0 \<le> mediaIndex p \<Longrightarrow>
   fused_key \<lparr>fusedPostIndex = Num (postIndex p), fusedMediaIndex = Num (mediaIndex p),
              rrfScore = s\<rparr> = key_string p"
  by (simp add: fused_key_def toString_def key_string_def getKey_def)

lemma hybridSearch_semantic_only:
  assumes nb: "\<not> blank query" and store: "store e = Some corpus"
    and key: "\<not> unset (GOOGLE_GENERATIVE_AI_API_KEY e)"
    and v: "embed e query = Inr v"
    and sim: "\<forall>p\<in>set corpus. cosineSimilarity e v (embedding p) = Inr (sim p)"
    and kw: "getKeywordRanks e query corpus = []"
    and nonneg: "\<forall>p\<in>set corpus. nonneg_key p"
    and d: "distinct (map doc_key corpus)"
    and topK: "0 \<le> topK"
  shows "\<exists>is. distinct is \<and> set is = {0 ..< length corpus}
      \<and> sorted_wrt (\<lambda>i j. sim (corpus ! i) \<ge> sim (corpus ! j)) is
      \<and> hybridSearch e query topK =
          (Inr (take (nat topK)
                  (map (\<lambda>n. \<lparr>postIndex = postIndex (corpus ! (is ! n)),
                              mediaIndex = mediaIndex (corpus ! (is ! n)),
                              title = title (corpus ! (is ! n)), uri = uri (corpus ! (is ! n)),
                              isVideo = isVideo (corpus ! (is ! n)),
                              creationTimestamp = creationTimestamp (corpus ! (is ! n)),
                              similarity = 1 / (60 + real (n + 1))\<rparr>)
                     [0 ..< length corpus])),
           [query])"
proof -
  let ?is = "semantic_order sim corpus"
  let ?N = "length corpus"
  let ?D = "\<lambda>n. corpus ! (?is ! n)"
  let ?R = "\<lambda>n. \<lparr>postIndex = postIndex (?D n), mediaIndex = mediaIndex (?D n), rank = n + 1\<rparr>"
  let ?G = "\<lambda>n. \<lparr>fusedPostIndex = Num (postIndex (?D n)),
                   fusedMediaIndex = Num (mediaIndex (?D n)),
                   rrfScore = 1 / (60 + real (n + 1))\<rparr>"
  let ?S = "\<lambda>n. toSearchResult (?D n) (1 / (60 + real (n + 1)))"
  note props = semantic_order_props [of sim corpus]
  have len: "length ?is = ?N" by (rule props(3))
  have pos: "?is ! n < ?N" if "n < ?N" for n
  proof -
    from that len have "?is ! n \<in> set ?is" by simp
    then show ?thesis by (simp add: props(2))
  qed
  have mem: "?D n \<in> set corpus" if "n < ?N" for n using pos [OF that] by simp
  have dk: "distinct (map key_string corpus)" using d by (rule distinct_key_string)
  have sr: "getSemanticRanks e query corpus = (Inr (map ?R [0 ..< ?N]), [query])"
    using getSemanticRanks_ok [OF nb key v sim] by (simp add: indexed_nth len comp_def)
  have nn: "\<forall>n<?N. nonneg_key (?D n)" using nonneg mem by blast
  have "inj_on (\<lambda>n. key_string (?D n)) {0 ..< ?N}"
  proof (rule inj_onI)
    fix a b assume ab: "a \<in> {0 ..< ?N}" "b \<in> {0 ..< ?N}" "key_string (?D a) = key_string (?D b)"
    then have "map key_string corpus ! (?is ! a) = map key_string corpus ! (?is ! b)"
      using pos by simp
    with dk ab pos have "?is ! a = ?is ! b"
      using nth_eq_iff_index_eq [OF dk, of "?is ! a" "?is ! b"] by simp
    with props(1) ab len show "a = b"
      using nth_eq_iff_index_eq [OF props(1), of a b] by simp
  qed
  then have dD: "distinct (map (\<lambda>n. key_string (?D n)) [0 ..< ?N])"
    by (simp add: distinct_map)
  have k60: "(0::real) \<le> 60" by simp
  have fused: "fuseRRF (map ?R [0 ..< ?N]) ([] :: KeywordSearchResult list) 60 = map ?G [0 ..< ?N]"
    using k60 nn dD by (rule fuseRRF_first_only)
  have res: "resolve_fused (embeddingMap corpus) (?G n) = Inr (?S n)" if "n < ?N" for n
  proof -
    have "nonneg_key (?D n)" using nn that by simp
    then have "fused_key (?G n) = key_string (?D n)"
      by (intro fused_key_Num) (simp_all add: nonneg_key_def)
    moreover have "map_get (embeddingMap corpus) (key_string (?D n)) = Some (?D n)"
      using dk pos [OF that] by (rule embeddingMap_lookup_nth)
    ultimately show ?thesis by (simp add: resolve_fused_def Let_def)
  qed
  have mt: "map_throwing (resolve_fused (embeddingMap corpus)) (map ?G ns) = Inr (map ?S ns)"
    if "set ns \<subseteq> {0 ..< ?N}" for ns
    using that
  proof (induction ns)
    case Nil show ?case by simp
  next
    case (Cons n ns)
    then have "n < ?N" by simp
    with Cons res [of n] show ?case by simp
  qed
  have "set (take (nat topK) [0 ..< ?N]) \<subseteq> {0 ..< ?N}" by (auto dest: in_set_takeD)
  from mt [OF this]
  have "map_throwing (resolve_fused (embeddingMap corpus)) (take (nat topK) (map ?G [0 ..< ?N]))
      = Inr (take (nat topK) (map ?S [0 ..< ?N]))"
    by (simp add: take_map)
  then have "hybridSearch e query topK = (Inr (take (nat topK) (map ?S [0 ..< ?N])), [query])"
    using sr kw fused topK by (simp add: hybridSearch_loaded [OF nb store] slice0_take)
  then show ?thesis
    using props(1,2,4) by (intro exI [of _ ?is]) (simp add: toSearchResult_def)
qed

lemma hybridSearch_similarity_fails:
  assumes nb: "\<not> blank query" and store: "store e = Some corpus"
    and key: "\<not> unset (GOOGLE_GENERATIVE_AI_API_KEY e)"
    and v: "embed e query = Inr v"
    and p: "p \<in> set corpus" "cosineSimilarity e v (embedding p) = Inl msg"
  shows "\<exists>msg'. hybridSearch e query topK = (Inl (SimilarityError msg'), [query])"
proof -
  let ?F = "\<lambda>post. case similarity_of e v post of
                     Inl err \<Rightarrow> Inl err | Inr s \<Rightarrow> Inr (post, s)"
  have "?F p = Inl (SimilarityError msg)" using p(2) by (simp add: similarity_of_def)
  from map_throwing_fails [of p corpus ?F, OF p(1) this]
  obtain err where err: "map_throwing ?F corpus = Inl err" by (elim exE)
  from similarity_error [OF err] obtain msg' where "err = SimilarityError msg'" by blast
  with err have "getSemanticRanks e query corpus = (Inl (SimilarityError msg'), [query])"
    using nb key v by (simp add: getSemanticRanks_def)
  then show ?thesis by (simp add: hybridSearch_loaded [OF nb store])
qed

text \<open>
  Claim C3. For a query with a code unit that is not white space and a loaded store: without the
  credential the hybrid mode fails with the configuration error, before any call to the
  provider; when the embedding call fails, it fails with the provider's error; when
  \<^verbatim>\<open>cosineSimilarity\<close> throws for a document, it fails with that error; and when the semantic
  call succeeds and the keyword list is empty (a corpus of distinct keys with non-negative
  indices, \<open>topK \<ge> 0\<close>), it does not fail: the result is the semantic ranking alone, the
  first \<open>topK\<close> records in descending order of their similarity to the query, the record at
  position \<open>n\<close> with the fused score \<open>1/(60 + n + 1)\<close> of its semantic rank.
\<close>

theorem hybrid_failure_policy:
  assumes query: "\<exists>c\<in>set query. c \<notin> white_space" and store: "store e = Some corpus"
  shows "(unset (GOOGLE_GENERATIVE_AI_API_KEY e) \<longrightarrow>
            hybridSearch e query topK = (Inl ConfigurationError, []))
       \<and> (\<forall>msg. \<not> unset (GOOGLE_GENERATIVE_AI_API_KEY e) \<and> embed e query = Inl msg \<longrightarrow>
            hybridSearch e query topK = (Inl (EmbeddingProviderError msg), [query]))
       \<and> (\<forall>v p msg. \<not> unset (GOOGLE_GENERATIVE_AI_API_KEY e) \<and> embed e query = Inr v
              \<and> p \<in> set corpus \<and> cosineSimilarity e v (embedding p) = Inl msg \<longrightarrow>
            (\<exists>msg'. hybridSearch e query topK = (Inl (SimilarityError msg'), [query])))
       \<and> (\<forall>v sim. \<not> unset (GOOGLE_GENERATIVE_AI_API_KEY e) \<and> embed e query = Inr v
              \<and> (\<forall>p\<in>set corpus. cosineSimilarity e v (embedding p) = Inr (sim p))
              \<and> getKeywordRanks e query corpus = []
              \<and> (\<forall>p\<in>set corpus. nonneg_key p) \<and> distinct (map doc_key corpus)
              \<and> 0 \<le> topK \<longrightarrow>
            (\<exists>is. distinct is \<and> set is = {0 ..< length corpus}
              \<and> sorted_wrt (\<lambda>i j. sim (corpus ! i) \<ge> sim (corpus ! j)) is
              \<and> hybridSearch e query topK =
                  (Inr (take (nat topK)
                     (map (\<lambda>n. \<lparr>postIndex = postIndex (corpus ! (is ! n)),
                                 mediaIndex = mediaIndex (corpus ! (is ! n)),
                                 title = title (corpus ! (is ! n)),
                                 uri = uri (corpus ! (is ! n)),
                                 isVideo = isVideo (corpus ! (is ! n)),
                                 creationTimestamp = creationTimestamp (corpus ! (is ! n)),
                                 similarity = 1 / (60 + real (n + 1))\<rparr>)
                        [0 ..< length corpus])),
                   [query])))"
proof -
  have nb: "\<not> blank query" using query by (rule not_blank_white_space)
  show ?thesis
proof (intro conjI allI impI)
  assume "unset (GOOGLE_GENERATIVE_AI_API_KEY e)"
  then show "hybridSearch e query topK = (Inl ConfigurationError, [])"
    using nb by (simp add: hybridSearch_loaded [OF nb store] getSemanticRanks_def)
next
  fix msg assume "\<not> unset (GOOGLE_GENERATIVE_AI_API_KEY e) \<and> embed e query = Inl msg"
  then show "hybridSearch e query topK = (Inl (EmbeddingProviderError msg), [query])"
    using nb by (simp add: hybridSearch_loaded [OF nb store] getSemanticRanks_def)
next
  fix v p msg
  assume "\<not> unset (GOOGLE_GENERATIVE_AI_API_KEY e) \<and> embed e query = Inr v
      \<and> p \<in> set corpus \<and> cosineSimilarity e v (embedding p) = Inl msg"
  then show "\<exists>msg'. hybridSearch e query topK = (Inl (SimilarityError msg'), [query])"
    using hybridSearch_similarity_fails [OF nb store] by blast
next
  fix v sim
  assume a: "\<not> unset (GOOGLE_GENERATIVE_AI_API_KEY e) \<and> embed e query = Inr v
      \<and> (\<forall>p\<in>set corpus. cosineSimilarity e v (embedding p) = Inr (sim p))
      \<and> getKeywordRanks e query corpus = []
      \<and> (\<forall>p\<in>set corpus. nonneg_key p) \<and> distinct (map doc_key corpus) \<and> 0 \<le> topK"
  then have "\<not> unset (GOOGLE_GENERATIVE_AI_API_KEY e)" "embed e query = Inr v"
    "\<forall>p\<in>set corpus. cosineSimilarity e v (embedding p) = Inr (sim p)"
    "getKeywordRanks e query corpus = []" "\<forall>p\<in>set corpus. nonneg_key p"
    "distinct (map doc_key corpus)" "0 \<le> topK"
    by simp_all
  from hybridSearch_semantic_only [OF nb store this]
  show "\<exists>is. distinct is \<and> set is = {0 ..< length corpus}
              \<and> sorted_wrt (\<lambda>i j. sim (corpus ! i) \<ge> sim (corpus ! j)) is
              \<and> hybridSearch e query topK =
                  (Inr (take (nat topK)
                     (map (\<lambda>n. \<lparr>postIndex = postIndex (corpus ! (is ! n)),
                                 mediaIndex = mediaIndex (corpus ! (is ! n)),
                                 title = title (corpus ! (is ! n)),
                                 uri = uri (corpus ! (is ! n)),
                                 isVideo = isVideo (corpus ! (is ! n)),
                                 creationTimestamp = creationTimestamp (corpus ! (is ! n)),
                                 similarity = 1 / (60 + real (n + 1))\<rparr>)
                        [0 ..< length corpus])),
                   [query])" .
qed
qed

text \<open>
  The example, for the query \<^verbatim>\<open>garden\<close> without the credential, with a failing provider and
  with a query embedding of another dimension than the documents', and for the query
  \<^verbatim>\<open>zebra\<close>, which matches no title.
\<close>

theorem hybrid_failure_policy_witness:
  "hybridSearch (example_env\<lparr>GOOGLE_GENERATIVE_AI_API_KEY := None\<rparr>) (ascii ''garden'') 10
     = (Inl ConfigurationError, [])
   \<and> hybridSearch (example_env\<lparr>embed := (\<lambda>text. Inl ''timeout'')\<rparr>) (ascii ''garden'') 10
     = (Inl (EmbeddingProviderError ''timeout''), [ascii ''garden''])
   \<and> (\<exists>msg'. hybridSearch (example_env\<lparr>embed := (\<lambda>text. Inr [1])\<rparr>) (ascii ''garden'') 10
     = (Inl (SimilarityError msg'), [ascii ''garden'']))
   \<and> getKeywordRanks example_env (ascii ''zebra'') example_corpus = []
   \<and> hybridSearch example_env (ascii ''zebra'') 10
     = (Inr [\<lparr>postIndex = 0, mediaIndex = 0, title = ascii ''Lilly digs the garden'',
              uri = ascii ''a.jpg'', isVideo = False, creationTimestamp = 1625097600,
              similarity = 1 / 61\<rparr>,
             \<lparr>postIndex = 1, mediaIndex = 0, title = ascii ''Lilly eats cheese'',
              uri = ascii ''b.mp4'', isVideo = True, creationTimestamp = 1625184000,
              similarity = 1 / 62\<rparr>],
        [ascii ''zebra''])
   \<and> (\<exists>is. distinct is \<and> set is = {0 ..< length example_corpus}
        \<and> sorted_wrt (\<lambda>i j. dot [1, 0] (embedding (example_corpus ! i))
                              \<ge> dot [1, 0] (embedding (example_corpus ! j))) is
        \<and> hybridSearch example_env (ascii ''zebra'') 10 =
            (Inr (take (nat 10)
               (map (\<lambda>n. \<lparr>postIndex = postIndex (example_corpus ! (is ! n)),
                           mediaIndex = mediaIndex (example_corpus ! (is ! n)),
                           title = title (example_corpus ! (is ! n)),
                           uri = uri (example_corpus ! (is ! n)),
                           isVideo = isVideo (example_corpus ! (is ! n)),
                           creationTimestamp = creationTimestamp (example_corpus ! (is ! n)),
                           similarity = 1 / (60 + real (n + 1))\<rparr>)
                  [0 ..< length example_corpus])),
             [ascii ''zebra'']))"
proof -
  have kw: "getKeywordRanks example_env (ascii ''zebra'') example_corpus = []" by code_simp
  have 1: "hybridSearch (example_env\<lparr>GOOGLE_GENERATIVE_AI_API_KEY := None\<rparr>) (ascii ''garden'') 10
     = (Inl ConfigurationError, [])"
    using hybrid_failure_policy [of "ascii ''garden''"
        "example_env\<lparr>GOOGLE_GENERATIVE_AI_API_KEY := None\<rparr>" example_corpus 10]
      garden_not_white
    by (simp add: example_env_def unset_def)
  have 2: "hybridSearch (example_env\<lparr>embed := (\<lambda>text. Inl ''timeout'')\<rparr>) (ascii ''garden'') 10
     = (Inl (EmbeddingProviderError ''timeout''), [ascii ''garden''])"
    using hybrid_failure_policy [of "ascii ''garden''"
        "example_env\<lparr>embed := (\<lambda>text. Inl ''timeout'')\<rparr>" example_corpus 10]
      garden_not_white
    by (simp add: example_env_def unset_def)
  have m: "example_corpus ! 0 \<in> set example_corpus
      \<and> cosineSimilarity (example_env\<lparr>embed := (\<lambda>text. Inr [1])\<rparr>) [1]
            (embedding (example_corpus ! 0)) = Inl ''Vectors must have the same length''"
    by (simp add: example_env_def example_corpus_def example_similarity_def)
  have 3: "\<exists>msg'. hybridSearch (example_env\<lparr>embed := (\<lambda>text. Inr [1])\<rparr>) (ascii ''garden'') 10
     = (Inl (SimilarityError msg'), [ascii ''garden''])"
    using hybrid_failure_policy [of "ascii ''garden''"
        "example_env\<lparr>embed := (\<lambda>text. Inr [1])\<rparr>" example_corpus 10]
      garden_not_white m
    by (simp add: example_env_def unset_def) blast
  have 4: "hybridSearch example_env (ascii ''zebra'') 10
     = (Inr [\<lparr>postIndex = 0, mediaIndex = 0, title = ascii ''Lilly digs the garden'',
              uri = ascii ''a.jpg'', isVideo = False, creationTimestamp = 1625097600,
              similarity = 1 / 61\<rparr>,
             \<lparr>postIndex = 1, mediaIndex = 0, title = ascii ''Lilly eats cheese'',
              uri = ascii ''b.mp4'', isVideo = True, creationTimestamp = 1625184000,
              similarity = 1 / 62\<rparr>],
        [ascii ''zebra''])"
    by code_simp
  have 5: "\<exists>is. distinct is \<and> set is = {0 ..< length example_corpus}
        \<and> sorted_wrt (\<lambda>i j. dot [1, 0] (embedding (example_corpus ! i))
                              \<ge> dot [1, 0] (embedding (example_corpus ! j))) is
        \<and> hybridSearch example_env (ascii ''zebra'') 10 =
            (Inr (take (nat 10)
               (map (\<lambda>n. \<lparr>postIndex = postIndex (example_corpus ! (is ! n)),
                           mediaIndex = mediaIndex (example_corpus ! (is ! n)),
                           title = title (example_corpus ! (is ! n)),
                           uri = uri (example_corpus ! (is ! n)),
                           isVideo = isVideo (example_corpus ! (is ! n)),
                           creationTimestamp = creationTimestamp (example_corpus ! (is ! n)),
                           similarity = 1 / (60 + real (n + 1))\<rparr>)
                  [0 ..< length example_corpus])),
             [ascii ''zebra''])"
  proof -
    have "(0::int) \<le> 10" by simp
    with example_facts(2) example_facts(3) [of "ascii ''zebra''"] example_similarities kw
      example_facts(4) example_facts(5)
    have pre: "\<not> unset (GOOGLE_GENERATIVE_AI_API_KEY example_env)
        \<and> embed example_env (ascii ''zebra'') = Inr [1, 0]
        \<and> (\<forall>p\<in>set example_corpus.
              cosineSimilarity example_env [1, 0] (embedding p) = Inr (dot [1, 0] (embedding p)))
        \<and> getKeywordRanks example_env (ascii ''zebra'') example_corpus = []
        \<and> (\<forall>p\<in>set example_corpus. nonneg_key p) \<and> distinct (map doc_key example_corpus)
        \<and> (0::int) \<le> 10"
      by (intro conjI)
    from hybrid_failure_policy [OF zebra_not_white example_facts(1), of 10,
        THEN conjunct2, THEN conjunct2, THEN conjunct2, rule_format, OF pre]
    show ?thesis .
  qed
  from 1 2 3 kw 4 5 show ?thesis by (intro conjI)
qed

subsection \<open>Cosine similarity of a vector of zero magnitude\<close>

lemma dot_self: "dot a a = sum_list (map (\<lambda>x. x * x) a)"
  by (simp add: dot_def zip_same_conv_map comp_def)

lemma magnitude_zero_iff: "magnitude a = 0 \<longleftrightarrow> (\<forall>x\<in>set a. x = 0)"
proof -
  have "sum_list (map (\<lambda>x. x * x) a) = 0 \<longleftrightarrow> (\<forall>y\<in>set (map (\<lambda>x. x * x) a). y = 0)"
    by (rule sum_list_nonneg_eq_0_iff) auto
  then show ?thesis by (simp add: magnitude_def dot_self)
qed

text \<open>
  Claim C8. The cosine similarity is 0 if either vector has zero magnitude, and the dot
  product divided by the product of the magnitudes otherwise; a vector has zero magnitude
  exactly when all its components are 0.
\<close>

theorem cosine_zero_magnitude:
  "(magnitude a = 0 \<or> magnitude b = 0 \<longrightarrow> cosineSimilarity_spec a b = 0)
   \<and> (magnitude a \<noteq> 0 \<and> magnitude b \<noteq> 0 \<longrightarrow>
        cosineSimilarity_spec a b = dot a b / (magnitude a * magnitude b))
   \<and> (magnitude a = 0 \<longleftrightarrow> (\<forall>x\<in>set a. x = 0))"
  by (simp add: cosineSimilarity_spec_def magnitude_zero_iff)

theorem cosine_zero_magnitude_witness:
  "magnitude [0, 0] = 0 \<and> cosineSimilarity_spec [0, 0] [3, 4] = 0
   \<and> cosineSimilarity_spec [3, 4] [0, 0] = 0"
  using cosine_zero_magnitude [of "[0, 0]" "[3, 4]"] cosine_zero_magnitude [of "[3, 4]" "[0, 0]"]
  by (simp add: magnitude_zero_iff)

end
